theory Spec2Isabelle
  imports Main
begin

section \<open>The directory group synchroniser of website/mailinglists/gsuite.py\<close>

subsection \<open>Data model\<close>

text \<open>
  The class \<open>GroupData\<close> (lines 15-26): the desired state of one mailing group. The two
  collections are Python lists; their order and their duplicates are kept.
\<close>

record GroupData =
  moderated :: bool
  archived :: bool
  prefix :: string
  name :: string
  description :: string
  aliases :: "string list"
  addresses :: "string list"

text \<open>
  The constructor (lines 16-19) with the defaults of \<open>moderated\<close>, \<open>archived\<close> and
  \<open>prefix\<close>.
\<close>

definition new_GroupData :: "string \<Rightarrow> string \<Rightarrow> string list \<Rightarrow> string list \<Rightarrow> GroupData" where
  "new_GroupData n d al ad =
     \<lparr>moderated = False, archived = False, prefix = [], name = n, description = d,
      aliases = al, addresses = ad\<rparr>"

text \<open>
  The only exception the module handles is \<open>googleapiclient.errors.HttpError\<close>, raised by
  \<open>.execute()\<close> of a request of the directory client.
\<close>

datatype error = HttpError

text \<open>
  The requests of the directory client, with the arguments the module passes:
  \<^item> \<open>GroupsList domain pageToken\<close>,
  \<^item> \<open>GroupsInsert email name description\<close> (the three fields of the body),
  \<^item> \<open>GroupsUpdate groupKey email name description\<close>,
  \<^item> \<open>GroupsDelete groupKey\<close>,
  \<^item> \<open>AliasesList groupKey\<close>, \<open>AliasesInsert groupKey alias\<close>, \<open>AliasesDelete groupKey alias\<close>,
  \<^item> \<open>MembersList groupKey pageToken\<close>, \<open>MembersInsert groupKey email role\<close>,
    \<open>MembersDelete groupKey memberKey\<close>.
\<close>

datatype request =
    GroupsList string "string option"
  | GroupsInsert string string string
  | GroupsUpdate string string string string
  | GroupsDelete string
  | AliasesList string
  | AliasesInsert string string
  | AliasesDelete string string
  | MembersList string "string option"
  | MembersInsert string string string
  | MembersDelete string string

text \<open>
  A response is the dictionary \<open>.execute()\<close> returns. The module reads two things from it:
  the collection under \<open>'groups'\<close>, \<open>'members'\<close> or \<open>'aliases'\<close> (an absent key reads as the
  empty list), of which it uses one field per element (\<open>g['name']\<close>, \<open>m['email']\<close>,
  \<open>a['alias']\<close>), and the optional \<open>'nextPageToken'\<close>. \<open>entries\<close> holds that field of each
  element, in the order of the response. Every element is taken to have the field, as
  the resources of the directory do; a \<open>KeyError\<close> of the comprehension is outside the
  model.
\<close>

record response =
  entries :: "string list"
  nextPageToken :: "string option"

text \<open>
  The directory service is outside the repository. It is a parameter of the model: a
  function from a request and the state of the outside world to the outcome of
  \<open>.execute()\<close> (an \<open>HttpError\<close> or a response) and the next state of the world. The
  type of the world is arbitrary, so the parameter covers every pattern of failures and
  every sequence of pages.
\<close>

type_synonym 'w api = "request \<Rightarrow> 'w \<Rightarrow> (error + response) \<times> 'w"

text \<open>
  What a run can be observed to do: each executed request with whether it returned
  (\<open>True\<close>) or raised (\<open>False\<close>), and the call of \<open>sleep(0.5)\<close>. The state threaded through
  the model is the world together with the events so far, oldest first.
\<close>

datatype event = Call request bool | Sleep

type_synonym 'w st = "'w \<times> event list"

text \<open>
  The outcome of a function of the module: \<open>Some (Inr ())\<close> when it returns,
  \<open>Some (Inl e)\<close> when it raises \<open>e\<close> to its caller, and \<open>None\<close> when a pagination loop
  has not finished within the bound on its iterations (see \<open>list_pages\<close>). The state is
  returned in all three cases.
\<close>

type_synonym 'w outcome = "(error + unit) option \<times> 'w st"

subsection \<open>Primitive effects\<close>

definition execute :: "'w api \<Rightarrow> request \<Rightarrow> 'w st \<Rightarrow> (error + response) \<times> 'w st" where
  "execute api rq s =
     (case api rq (fst s) of
        (Inl e, w) \<Rightarrow> (Inl e, (w, snd s @ [Call rq False]))
      | (Inr r, w) \<Rightarrow> (Inr r, (w, snd s @ [Call rq True])))"

definition sleep :: "'w st \<Rightarrow> 'w st" where
  "sleep s = (fst s, snd s @ [Sleep])"

text \<open>
  The body of the four loops over single aliases and members (lines 86-92, 95-103,
  145-151, 154-163): \<open>try: request.execute() except HttpError: pass\<close>.
\<close>

definition try_execute :: "'w api \<Rightarrow> request \<Rightarrow> 'w st \<Rightarrow> 'w st" where
  "try_execute api rq s =
     (case execute api rq s of
        (Inl HttpError, s') \<Rightarrow> s'
      | (Inr r, s') \<Rightarrow> s')"

text \<open>
  The f-string that every address is built with: the name, an at sign, and
  \<open>settings.GSUITE_DOMAIN\<close>; the setting is the parameter \<open>domain\<close>.
\<close>

definition at_domain :: "string \<Rightarrow> string \<Rightarrow> string" where
  "at_domain domain n = n @ ''@'' @ domain"

subsection \<open>The diff\<close>

text \<open>
  The two list comprehensions that follow every listing (lines 82-83, 141-142, 224-225):
  \<open>remove_list = [x for x in existing if x not in new]\<close> and
  \<open>insert_list = [x for x in new if x not in existing]\<close>.
\<close>

definition remove_list :: "string list \<Rightarrow> string list \<Rightarrow> string list" where
  "remove_list existing new = [x \<leftarrow> existing. x \<notin> set new]"

definition insert_list :: "string list \<Rightarrow> string list \<Rightarrow> string list" where
  "insert_list existing new = [x \<leftarrow> new. x \<notin> set existing]"

subsection \<open>Paginated listings\<close>

text \<open>
  The loop \<open>while 'nextPageToken' in response: response = list(pageToken=...).execute();
  collected += response.get(..., [])\<close> of lines 129-134 and 212-217. \<open>next_page\<close> builds
  the request for a token. The remote service decides whether the loop ends, so the
  model bounds the number of iterations by its first argument: \<open>None\<close> means that the
  loop was still running when the bound was reached. An \<open>HttpError\<close> of \<open>.execute()\<close>
  leaves the loop.
\<close>

fun list_pages ::
  "nat \<Rightarrow> 'w api \<Rightarrow> (string \<Rightarrow> request) \<Rightarrow> response \<Rightarrow> string list \<Rightarrow> 'w st
    \<Rightarrow> (error + string list) option \<times> 'w st" where
  "list_pages n api next_page resp collected s =
     (case nextPageToken resp of
        None \<Rightarrow> (Some (Inr collected), s)
      | Some token \<Rightarrow>
          (case n of
             0 \<Rightarrow> (None, s)
           | Suc m \<Rightarrow>
               (case execute api (next_page token) s of
                  (Inl e, s') \<Rightarrow> (Some (Inl e), s')
                | (Inr resp', s') \<Rightarrow>
                    list_pages m api next_page resp' (collected @ entries resp') s')))"

text \<open>
  The body of the two \<open>try\<close> blocks (lines 125-136 and 208-218): the first \<open>list\<close> call
  without a token, then the loop. \<open>list_request\<close> is \<open>MembersList key\<close> or
  \<open>GroupsList domain\<close>.
\<close>

definition list_remote ::
  "nat \<Rightarrow> 'w api \<Rightarrow> (string option \<Rightarrow> request) \<Rightarrow> 'w st
    \<Rightarrow> (error + string list) option \<times> 'w st" where
  "list_remote n api list_request s =
     (case execute api (list_request None) s of
        (Inl e, s') \<Rightarrow> (Some (Inl e), s')
      | (Inr resp, s') \<Rightarrow>
          list_pages n api (\<lambda>token. list_request (Some token)) resp (entries resp) s')"

subsection \<open>The operations on one group\<close>

text \<open>
  \<open>update_group_members\<close> (lines 117-163). The listing is inside \<open>try\<close>; on \<open>HttpError\<close>
  the function returns. Then one \<open>delete\<close> per element of \<open>remove_list\<close> and one \<open>insert\<close>
  per element of \<open>insert_list\<close>, each in its own \<open>try\<close>.
\<close>

definition update_group_members :: "nat \<Rightarrow> 'w api \<Rightarrow> string \<Rightarrow> GroupData \<Rightarrow> 'w st \<Rightarrow> 'w outcome" where
  "update_group_members n api domain grp s =
     (let key = at_domain domain (name grp) in
      case list_remote n api (MembersList key) s of
        (None, s1) \<Rightarrow> (None, s1)
      | (Some (Inl HttpError), s1) \<Rightarrow> (Some (Inr ()), s1)
      | (Some (Inr existing_members), s1) \<Rightarrow>
          (let new_members = addresses grp;
               removals = remove_list existing_members new_members;
               inserts = insert_list existing_members new_members;
               s2 = fold (\<lambda>remove_member. try_execute api (MembersDelete key remove_member))
                      removals s1;
               s3 = fold (\<lambda>insert_member.
                            try_execute api (MembersInsert key insert_member ''MEMBER''))
                      inserts s2
           in (Some (Inr ()), s3)))"

text \<open>
  \<open>update_group_aliases\<close> (lines 68-103). The listing is one call, outside any \<open>try\<close>:
  its \<open>HttpError\<close> leaves the function. No page token is read from the response.
\<close>

definition update_group_aliases :: "'w api \<Rightarrow> string \<Rightarrow> GroupData \<Rightarrow> 'w st \<Rightarrow> 'w outcome" where
  "update_group_aliases api domain grp s =
     (let key = at_domain domain (name grp) in
      case execute api (AliasesList key) s of
        (Inl e, s1) \<Rightarrow> (Some (Inl e), s1)
      | (Inr aliases_response, s1) \<Rightarrow>
          (let existing_aliases = entries aliases_response;
               new_aliases = map (at_domain domain) (aliases grp);
               removals = remove_list existing_aliases new_aliases;
               inserts = insert_list existing_aliases new_aliases;
               s2 = fold (\<lambda>remove_alias. try_execute api (AliasesDelete key remove_alias))
                      removals s1;
               s3 = fold (\<lambda>insert_alias. try_execute api (AliasesInsert key insert_alias))
                      inserts s2
           in (Some (Inr ()), s3)))"

text \<open>
  \<open>create_group\<close> (lines 29-46): the insert is executed outside any \<open>try\<close>, then
  \<open>sleep(0.5)\<close>, then \<open>update_group_members\<close>.
\<close>

definition create_group :: "nat \<Rightarrow> 'w api \<Rightarrow> string \<Rightarrow> GroupData \<Rightarrow> 'w st \<Rightarrow> 'w outcome" where
  "create_group n api domain grp s =
     (case execute api
             (GroupsInsert (at_domain domain (name grp)) (name grp) (description grp)) s of
        (Inl e, s1) \<Rightarrow> (Some (Inl e), s1)
      | (Inr r, s1) \<Rightarrow> update_group_members n api domain grp (sleep s1))"

text \<open>
  \<open>update_group\<close> (lines 49-65). Lines 56-63 build the request
  \<open>groups().update(groupKey=..., body=...)\<close> and drop it: \<open>.execute()\<close> is not called on
  it, so no request reaches the directory and nothing can be raised there. What runs is
  \<open>update_group_aliases\<close>, then \<open>update_group_members\<close>.
\<close>

definition update_group :: "nat \<Rightarrow> 'w api \<Rightarrow> string \<Rightarrow> string \<Rightarrow> GroupData \<Rightarrow> 'w st \<Rightarrow> 'w outcome" where
  "update_group n api domain old_name grp s =
     (case update_group_aliases api domain grp s of
        (Some (Inr u), s1) \<Rightarrow> update_group_members n api domain grp s1
      | (r, s1) \<Rightarrow> (r, s1))"

text \<open>\<open>delete_group\<close> (lines 106-114): one delete, executed outside any \<open>try\<close>.\<close>

definition delete_group :: "'w api \<Rightarrow> string \<Rightarrow> GroupData \<Rightarrow> 'w st \<Rightarrow> 'w outcome" where
  "delete_group api domain grp s =
     (case execute api (GroupsDelete (at_domain domain (name grp))) s of
        (Inl e, s1) \<Rightarrow> (Some (Inl e), s1)
      | (Inr r, s1) \<Rightarrow> (Some (Inr ()), s1))"

subsection \<open>The synchronisation pass\<close>

text \<open>
  The loop \<open>for l in lists\<close> of lines 227-233, over the desired groups. An operation that
  raises, or whose listing does not finish, ends the loop.
\<close>

fun sync_groups ::
  "nat \<Rightarrow> 'w api \<Rightarrow> string \<Rightarrow> string list \<Rightarrow> string list \<Rightarrow> GroupData list \<Rightarrow> 'w st
    \<Rightarrow> 'w outcome" where
  "sync_groups n api domain removals inserts [] s = (Some (Inr ()), s)"
| "sync_groups n api domain removals inserts (l # ls) s =
     (case (if name l \<in> set removals then delete_group api domain l s
            else if name l \<in> set inserts then create_group n api domain l s
            else update_group n api domain (name l) l s) of
        (Some (Inr u), s') \<Rightarrow> sync_groups n api domain removals inserts ls s'
      | (r, s') \<Rightarrow> (r, s'))"

text \<open>
  \<open>sync_mailinglists\<close> (lines 192-233). When \<open>lists\<close> is \<open>None\<close> the desired groups are
  built from the stored and the automatic mailing lists; both come from the persistence
  layer, so the list built from them is the parameter \<open>stored\<close>; \<open>desired_groups\<close> is
  the value of the variable \<open>lists\<close> after lines 199-205. An \<open>HttpError\<close> while
  listing the remote groups makes the function return.
\<close>

definition desired_groups :: "GroupData list \<Rightarrow> GroupData list option \<Rightarrow> GroupData list" where
  "desired_groups stored lists_arg = (case lists_arg of None \<Rightarrow> stored | Some given \<Rightarrow> given)"

definition sync_mailinglists ::
  "nat \<Rightarrow> 'w api \<Rightarrow> string \<Rightarrow> GroupData list \<Rightarrow> GroupData list option \<Rightarrow> 'w st \<Rightarrow> 'w outcome" where
  "sync_mailinglists n api domain stored lists_arg s =
     (let desired = desired_groups stored lists_arg in
      case list_remote n api (GroupsList domain) s of
        (None, s1) \<Rightarrow> (None, s1)
      | (Some (Inl HttpError), s1) \<Rightarrow> (Some (Inr ()), s1)
      | (Some (Inr existing_groups), s1) \<Rightarrow>
          (let new_groups = map name desired;
               removals = remove_list existing_groups new_groups;
               inserts = insert_list existing_groups new_groups
           in sync_groups n api domain removals inserts desired s1))"

section \<open>Services to run the model on, and descriptions of runs\<close>

subsection \<open>Two directory services to run the model on\<close>

text \<open>
  A scripted service: the world is the list of the outcomes still to come, and every
  request, whatever it is, gets the next one. Once the script is used up every request
  fails.
\<close>

definition script_api :: "(error + response) list api" where
  "script_api rq w = (case w of [] \<Rightarrow> (Inl HttpError, []) | r # rs \<Rightarrow> (r, rs))"

definition page :: "string list \<Rightarrow> string option \<Rightarrow> error + response" where
  "page xs token = Inr \<lparr>entries = xs, nextPageToken = token\<rparr>"

text \<open>
  A reference directory: the groups of one domain in listing order, each under its
  address (the \<open>groupKey\<close>), with its display fields, aliases and members. Every listing
  is one page. A request on a group that does not exist fails, as do the insertion of
  what is there already and the deletion of what is not there.
\<close>

record remote_group =
  rg_name :: string
  rg_description :: string
  rg_aliases :: "string list"
  rg_members :: "string list"

type_synonym directory = "(string \<times> remote_group) list"

definition modify :: "string \<Rightarrow> (remote_group \<Rightarrow> remote_group) \<Rightarrow> directory \<Rightarrow> directory" where
  "modify key f d = map (\<lambda>(k, g). if k = key then (k, f g) else (k, g)) d"

definition succeed :: "directory \<Rightarrow> (error + response) \<times> directory" where
  "succeed d = (page [] None, d)"

fun directory_api :: "directory api" where
  "directory_api (GroupsList domain token) d = (page (map (rg_name \<circ> snd) d) None, d)"
| "directory_api (GroupsInsert email nm descr) d =
     (case map_of d email of
        Some g \<Rightarrow> (Inl HttpError, d)
      | None \<Rightarrow> succeed (d @ [(email, \<lparr>rg_name = nm, rg_description = descr,
                                    rg_aliases = [], rg_members = []\<rparr>)]))"
| "directory_api (GroupsUpdate key email nm descr) d =
     (case map_of d key of
        None \<Rightarrow> (Inl HttpError, d)
      | Some g \<Rightarrow>
          succeed (map (\<lambda>(k, g). if k = key
                             then (email, g\<lparr>rg_name := nm, rg_description := descr\<rparr>)
                             else (k, g)) d))"
| "directory_api (GroupsDelete key) d =
     (case map_of d key of
        None \<Rightarrow> (Inl HttpError, d)
      | Some g \<Rightarrow> succeed [(k, g) \<leftarrow> d. k \<noteq> key])"
| "directory_api (AliasesList key) d =
     (case map_of d key of
        None \<Rightarrow> (Inl HttpError, d)
      | Some g \<Rightarrow> (page (rg_aliases g) None, d))"
| "directory_api (AliasesInsert key alias) d =
     (case map_of d key of
        None \<Rightarrow> (Inl HttpError, d)
      | Some g \<Rightarrow>
          if alias \<in> set (rg_aliases g) then (Inl HttpError, d)
          else succeed (modify key (\<lambda>g. g\<lparr>rg_aliases := rg_aliases g @ [alias]\<rparr>) d))"
| "directory_api (AliasesDelete key alias) d =
     (case map_of d key of
        None \<Rightarrow> (Inl HttpError, d)
      | Some g \<Rightarrow>
          if alias \<notin> set (rg_aliases g) then (Inl HttpError, d)
          else succeed (modify key (\<lambda>g. g\<lparr>rg_aliases := [a \<leftarrow> rg_aliases g. a \<noteq> alias]\<rparr>) d))"
| "directory_api (MembersList key token) d =
     (case map_of d key of
        None \<Rightarrow> (Inl HttpError, d)
      | Some g \<Rightarrow> (page (rg_members g) None, d))"
| "directory_api (MembersInsert key email role) d =
     (case map_of d key of
        None \<Rightarrow> (Inl HttpError, d)
      | Some g \<Rightarrow>
          if email \<in> set (rg_members g) then (Inl HttpError, d)
          else succeed (modify key (\<lambda>g. g\<lparr>rg_members := rg_members g @ [email]\<rparr>) d))"
| "directory_api (MembersDelete key member) d =
     (case map_of d key of
        None \<Rightarrow> (Inl HttpError, d)
      | Some g \<Rightarrow>
          if member \<notin> set (rg_members g) then (Inl HttpError, d)
          else succeed (modify key (\<lambda>g. g\<lparr>rg_members := [m \<leftarrow> rg_members g. m \<noteq> member]\<rparr>) d))"



text \<open>The requests of a trace, in order.\<close>

fun requests :: "event list \<Rightarrow> request list" where
  "requests [] = []"
| "requests (Call rq ok # evs) = rq # requests evs"
| "requests (Sleep # evs) = requests evs"

subsection \<open>Describing what a run did\<close>

text \<open>
  \<open>emits P s s'\<close>: the trace of \<open>s'\<close> is the trace of \<open>s\<close> followed by events that all
  satisfy \<open>P\<close>.
\<close>

definition emits :: "(event \<Rightarrow> bool) \<Rightarrow> 'w st \<Rightarrow> 'w st \<Rightarrow> bool" where
  "emits P s s' \<longleftrightarrow> (\<exists>tr. snd s' = snd s @ tr \<and> (\<forall>ev \<in> set tr. P ev))"

text \<open>The group a request is addressed to, when it is addressed to one.\<close>

fun target :: "request \<Rightarrow> string option" where
  "target (GroupsList domain token) = None"
| "target (GroupsInsert email nm descr) = Some email"
| "target (GroupsUpdate key email nm descr) = Some key"
| "target (GroupsDelete key) = Some key"
| "target (AliasesList key) = Some key"
| "target (AliasesInsert key alias) = Some key"
| "target (AliasesDelete key alias) = Some key"
| "target (MembersList key token) = Some key"
| "target (MembersInsert key email role) = Some key"
| "target (MembersDelete key member) = Some key"

text \<open>
  The requests that the operations on the desired group \<open>g\<close> contain: the insert of
  lines 35-41, and the alias and member requests, all under the address of \<open>g\<close>.
\<close>

fun group_request :: "string \<Rightarrow> GroupData \<Rightarrow> request \<Rightarrow> bool" where
  "group_request domain g (GroupsInsert email nm descr) =
     (email = at_domain domain (name g) \<and> nm = name g \<and> descr = description g)"
| "group_request domain g (AliasesList key) = (key = at_domain domain (name g))"
| "group_request domain g (AliasesInsert key alias) = (key = at_domain domain (name g))"
| "group_request domain g (AliasesDelete key alias) = (key = at_domain domain (name g))"
| "group_request domain g (MembersList key token) = (key = at_domain domain (name g))"
| "group_request domain g (MembersInsert key email role) =
     (key = at_domain domain (name g) \<and> role = ''MEMBER'')"
| "group_request domain g (MembersDelete key member) = (key = at_domain domain (name g))"
| "group_request domain g (GroupsList d token) = False"
| "group_request domain g (GroupsUpdate key email nm descr) = False"
| "group_request domain g (GroupsDelete key) = False"

text \<open>
  The two requests of the operations on \<open>g\<close> that are executed outside any \<open>try\<close> in
  \<open>create_group\<close> and \<open>update_group\<close>: the insert of the group (lines 35-41) and the
  listing of its aliases (lines 74-76).
\<close>

definition raising_request :: "string \<Rightarrow> GroupData \<Rightarrow> request \<Rightarrow> bool" where
  "raising_request domain g rq \<longleftrightarrow>
     rq = GroupsInsert (at_domain domain (name g)) (name g) (description g) \<or>
     rq = AliasesList (at_domain domain (name g))"




text \<open>
  What the directory serves when a cursor is followed to its end:
  \<open>paged api list_request token s rs s'\<close> holds when, from the state \<open>s\<close>, the request for
  \<open>token\<close> returns the first response of \<open>rs\<close>, each response but the last carries the
  token whose request returns the next one, the last response carries no token, and
  \<open>s'\<close> is the state after the last request.
\<close>

inductive paged ::
  "'w api \<Rightarrow> (string option \<Rightarrow> request) \<Rightarrow> string option \<Rightarrow> 'w st \<Rightarrow> response list \<Rightarrow> 'w st
    \<Rightarrow> bool"
  for api :: "'w api" and list_request :: "string option \<Rightarrow> request" where
  last_page:
    "execute api (list_request token) s = (Inr r, s') \<Longrightarrow> nextPageToken r = None
      \<Longrightarrow> paged api list_request token s [r] s'"
| more_pages:
    "execute api (list_request token) s = (Inr r, s1) \<Longrightarrow> nextPageToken r = Some t
      \<Longrightarrow> paged api list_request (Some t) s1 rs s'
      \<Longrightarrow> paged api list_request token s (r # rs) s'"




section \<open>Properties of the diff\<close>

lemma set_remove_list: "set (remove_list existing new) = set existing - set new"
  by (auto simp: remove_list_def)

lemma set_insert_list: "set (insert_list existing new) = set new - set existing"
  by (auto simp: insert_list_def)

text \<open>
  C3. For all lists of existing keys \<open>E\<close> and desired keys \<open>D\<close>, the diff used for groups,
  members and aliases removes exactly the keys of \<open>E\<close> that are not in \<open>D\<close> and adds
  exactly the keys of \<open>D\<close> that are not in \<open>E\<close>; the two results are disjoint; and the
  results, as sets, depend only on the sets of keys, not on the order (or the
  repetitions) of the lists. Both functions are total functions without effects.
\<close>

theorem diff_is_set_difference:
  "set (remove_list E D) = set E - set D \<and>
   set (insert_list E D) = set D - set E \<and>
   set (remove_list E D) \<inter> set (insert_list E D) = {} \<and>
   (set E = set E' \<and> set D = set D' \<longrightarrow>
      set (remove_list E' D') = set (remove_list E D) \<and>
      set (insert_list E' D') = set (insert_list E D))"
  by (auto simp: set_remove_list set_insert_list)

theorem diff_is_set_difference_witness:
  "set (remove_list [''a'', ''b''] [''b'', ''c'']) = {''a''} \<and>
   set (insert_list [''a'', ''b''] [''b'', ''c'']) = {''c''} \<and>
   set (remove_list [''b'', ''a'', ''b''] [''c'', ''b'']) = {''a''} \<and>
   set (insert_list [''b'', ''a'', ''b''] [''c'', ''b'']) = {''c''}"
  using diff_is_set_difference
    [of "[''a'', ''b'']" "[''b'', ''c'']" "[''b'', ''a'', ''b'']" "[''c'', ''b'']"]
  by (simp add: insert_commute)

section \<open>Traces of the operations\<close>

lemma emits_refl: "emits P s s"
  by (simp add: emits_def)

lemma emits_trans: "emits P s s1 \<Longrightarrow> emits P s1 s2 \<Longrightarrow> emits P s s2"
  by (fastforce simp: emits_def)

lemma emits_mono: "emits P s s' \<Longrightarrow> (\<And>ev. P ev \<Longrightarrow> Q ev) \<Longrightarrow> emits Q s s'"
  by (auto simp: emits_def)

lemma execute_cases:
  obtains (raised) e w where "execute api rq s = (Inl e, (w, snd s @ [Call rq False]))"
  | (returned) r w where "execute api rq s = (Inr r, (w, snd s @ [Call rq True]))"
proof (cases "api rq (fst s)")
  case (Pair a w)
  then show ?thesis
    by (cases a) (auto simp: execute_def intro: raised returned)
qed

lemma emits_execute:
  assumes "execute api rq s = (r, s')" and "\<And>ok. P (Call rq ok)"
  shows "emits P s s'"
  using assms by (cases rule: execute_cases [of api rq s]) (auto simp: emits_def)

lemma emits_try_execute:
  assumes "\<And>ok. P (Call rq ok)"
  shows "emits P s (try_execute api rq s)"
  using assms
  by (cases rule: execute_cases [of api rq s]) (auto simp: emits_def try_execute_def split: error.splits)

lemma emits_fold_try_execute:
  assumes "\<And>x ok. x \<in> set xs \<Longrightarrow> P (Call (f x) ok)"
  shows "emits P s (fold (\<lambda>x. try_execute api (f x)) xs s)"
  using assms
proof (induction xs arbitrary: s)
  case Nil
  show ?case by (simp add: emits_refl)
next
  case (Cons x xs)
  have "emits P s (try_execute api (f x) s)"
    by (rule emits_try_execute) (simp add: Cons.prems)
  moreover have "emits P (try_execute api (f x) s) (fold (\<lambda>x. try_execute api (f x)) xs (try_execute api (f x) s))"
    by (rule Cons.IH) (simp add: Cons.prems)
  ultimately show ?case by (simp add: emits_trans)
qed

lemma emits_list_pages:
  assumes "list_pages n api next_page resp collected s = (r, s')"
    and "\<And>token ok. P (Call (next_page token) ok)"
  shows "emits P s s'"
  using assms
proof (induction n arbitrary: resp collected s)
  case 0
  then show ?case by (auto simp: emits_refl split: option.splits)
next
  case (Suc n)
  show ?case
  proof (cases "nextPageToken resp")
    case None
    with Suc.prems show ?thesis by (simp add: emits_refl)
  next
    case (Some token)
    show ?thesis
    proof -
      obtain a s1 where Pair: "execute api (next_page token) s = (a, s1)"
        by (rule prod.exhaust)
      then have step: "emits P s s1" by (rule emits_execute) (rule Suc.prems)
      show ?thesis
      proof (cases a)
        case (Inl e)
        with Suc.prems Some Pair step show ?thesis by simp
      next
        case (Inr resp')
        with Suc.prems Some Pair
        have "list_pages n api next_page resp' (collected @ entries resp') s1 = (r, s')" by simp
        then have "emits P s1 s'" by (rule Suc.IH) (rule Suc.prems)
        with step show ?thesis by (rule emits_trans)
      qed
    qed
  qed
qed

lemma emits_list_remote:
  assumes "list_remote n api list_request s = (r, s')"
    and "\<And>token ok. P (Call (list_request token) ok)"
  shows "emits P s s'"
proof -
  obtain a s1 where Pair: "execute api (list_request None) s = (a, s1)"
    by (rule prod.exhaust)
  then have step: "emits P s s1" by (rule emits_execute) (rule assms)
  show ?thesis
  proof (cases a)
    case (Inl e)
    with assms(1) Pair step show ?thesis by (simp add: list_remote_def)
  next
    case (Inr resp)
    with assms(1) Pair
    have "list_pages n api (\<lambda>token. list_request (Some token)) resp (entries resp) s1 = (r, s')"
      by (simp add: list_remote_def)
    then have "emits P s1 s'" by (rule emits_list_pages) (rule assms)
    with step show ?thesis by (rule emits_trans)
  qed
qed

lemma emits_update_group_members:
  assumes run: "update_group_members n api domain g s = (r, s')"
    and P: "\<And>rq ok. group_request domain g rq \<Longrightarrow> P (Call rq ok)"
  shows "emits P s s'"
proof -
  let ?key = "at_domain domain (name g)"
  obtain a s1 where listed: "list_remote n api (MembersList ?key) s = (a, s1)"
    by (rule prod.exhaust)
  then have step: "emits P s s1"
    by (rule emits_list_remote) (simp add: P)
  show ?thesis
  proof (cases a)
    case None
    with run listed step show ?thesis by (simp add: update_group_members_def)
  next
    case (Some b)
    show ?thesis
    proof (cases b)
      case (Inl e)
      with run listed step Some show ?thesis
        by (simp add: update_group_members_def split: error.splits)
    next
      case (Inr existing_members)
      let ?s2 = "fold (\<lambda>m. try_execute api (MembersDelete ?key m))
                   (remove_list existing_members (addresses g)) s1"
      let ?s3 = "fold (\<lambda>m. try_execute api (MembersInsert ?key m ''MEMBER''))
                   (insert_list existing_members (addresses g)) ?s2"
      have "emits P s1 ?s2" by (rule emits_fold_try_execute) (simp add: P)
      moreover have "emits P ?s2 ?s3" by (rule emits_fold_try_execute) (simp add: P)
      moreover from run listed Some Inr have "s' = ?s3"
        by (simp add: update_group_members_def Let_def)
      ultimately show ?thesis using step by (blast intro: emits_trans)
    qed
  qed
qed

lemma update_group_members_never_raises:
  "fst (update_group_members n api domain g s) \<noteq> Some (Inl e)"
  by (simp add: update_group_members_def Let_def split: prod.splits option.splits sum.splits error.splits)

lemma emits_update_group_aliases:
  assumes run: "update_group_aliases api domain g s = (r, s')"
    and P: "\<And>rq ok. group_request domain g rq \<Longrightarrow> P (Call rq ok)"
  shows "emits P s s'"
proof -
  let ?key = "at_domain domain (name g)"
  obtain a s1 where listed: "execute api (AliasesList ?key) s = (a, s1)"
    by (rule prod.exhaust)
  then have step: "emits P s s1"
    by (rule emits_execute) (simp add: P)
  show ?thesis
  proof (cases a)
    case (Inl e)
    with run listed step show ?thesis by (simp add: update_group_aliases_def)
  next
    case (Inr resp)
    let ?new = "map (at_domain domain) (aliases g)"
    let ?s2 = "fold (\<lambda>a. try_execute api (AliasesDelete ?key a))
                 (remove_list (entries resp) ?new) s1"
    let ?s3 = "fold (\<lambda>a. try_execute api (AliasesInsert ?key a))
                 (insert_list (entries resp) ?new) ?s2"
    have "emits P s1 ?s2" by (rule emits_fold_try_execute) (simp add: P)
    moreover have "emits P ?s2 ?s3" by (rule emits_fold_try_execute) (simp add: P)
    moreover from run listed Inr have "s' = ?s3"
      by (simp add: update_group_aliases_def Let_def)
    ultimately show ?thesis using step by (blast intro: emits_trans)
  qed
qed

lemma emits_sleep: "P Sleep \<Longrightarrow> emits P s (sleep s)"
  by (simp add: emits_def sleep_def)

lemma emits_create_group:
  assumes run: "create_group n api domain g s = (r, s')"
    and P: "\<And>rq ok. group_request domain g rq \<Longrightarrow> P (Call rq ok)" and S: "P Sleep"
  shows "emits P s s'"
proof -
  let ?rq = "GroupsInsert (at_domain domain (name g)) (name g) (description g)"
  obtain a s1 where inserted: "execute api ?rq s = (a, s1)"
    by (rule prod.exhaust)
  then have step: "emits P s s1"
    by (rule emits_execute) (simp add: P)
  show ?thesis
  proof (cases a)
    case (Inl e)
    with run inserted step show ?thesis by (simp add: create_group_def)
  next
    case (Inr resp)
    with run inserted have "update_group_members n api domain g (sleep s1) = (r, s')"
      by (simp add: create_group_def)
    then have "emits P (sleep s1) s'" by (rule emits_update_group_members) (rule P)
    moreover from S have "emits P s1 (sleep s1)" by (rule emits_sleep)
    ultimately show ?thesis using step by (blast intro: emits_trans)
  qed
qed

lemma emits_update_group:
  assumes run: "update_group n api domain old_name g s = (r, s')"
    and P: "\<And>rq ok. group_request domain g rq \<Longrightarrow> P (Call rq ok)"
  shows "emits P s s'"
proof -
  obtain a s1 where al: "update_group_aliases api domain g s = (a, s1)"
    by (rule prod.exhaust)
  then have step: "emits P s s1" by (rule emits_update_group_aliases) (rule P)
  show ?thesis
  proof (cases "a = Some (Inr ())")
    case True
    with run al have "update_group_members n api domain g s1 = (r, s')"
      by (simp add: update_group_def)
    then have "emits P s1 s'" by (rule emits_update_group_members) (rule P)
    with step show ?thesis by (rule emits_trans)
  next
    case False
    with run al have "s' = s1"
      by (auto simp: update_group_def split: option.splits sum.splits)
    with step show ?thesis by simp
  qed
qed

lemma set_requests: "rq \<in> set (requests tr) \<longleftrightarrow> (\<exists>ok. Call rq ok \<in> set tr)"
  by (induction tr rule: requests.induct) auto

lemma desired_not_removed:
  "l \<in> set desired \<Longrightarrow> name l \<notin> set (remove_list existing (map name desired))"
  by (simp add: set_remove_list)

lemma emits_sync_groups:
  assumes "sync_groups n api domain removals inserts ls s = (r, s')"
    and "\<And>l. l \<in> set ls \<Longrightarrow> name l \<notin> set removals"
    and "\<And>l rq ok. l \<in> set ls \<Longrightarrow> group_request domain l rq \<Longrightarrow> P (Call rq ok)"
    and "P Sleep"
  shows "emits P s s'"
  using assms
proof (induction ls arbitrary: s)
  case Nil
  then show ?case by (simp add: emits_refl)
next
  case (Cons l ls)
  let ?step = "if name l \<in> set inserts then create_group n api domain l s
               else update_group n api domain (name l) l s"
  obtain a s1 where step: "?step = (a, s1)" by (rule prod.exhaust)
  have P: "\<And>rq ok. group_request domain l rq \<Longrightarrow> P (Call rq ok)"
    by (rule Cons.prems(3)) simp_all
  have first: "emits P s s1"
  proof (cases "name l \<in> set inserts")
    case True
    with step have "create_group n api domain l s = (a, s1)" by simp
    then show ?thesis using P Cons.prems(4) by (rule emits_create_group)
  next
    case False
    with step have "update_group n api domain (name l) l s = (a, s1)" by simp
    then show ?thesis using P by (rule emits_update_group)
  qed
  have keep: "name l \<notin> set removals" by (rule Cons.prems(2)) simp
  show ?case
  proof (cases "a = Some (Inr ())")
    case True
    with Cons.prems(1) step keep
    have "sync_groups n api domain removals inserts ls s1 = (r, s')" by simp
    moreover have "name k \<notin> set removals" if "k \<in> set ls" for k
      using that by (simp add: Cons.prems(2))
    moreover have "P (Call rq ok)" if "k \<in> set ls" and "group_request domain k rq" for k rq ok
      using that by (intro Cons.prems(3) [of k rq]) simp_all
    ultimately have "emits P s1 s'" using Cons.prems(4) by (rule Cons.IH)
    with first show ?thesis by (rule emits_trans)
  next
    case False
    with Cons.prems(1) step keep have "s' = s1"
      by (auto split: option.splits sum.splits)
    with first show ?thesis by simp
  qed
qed

lemma emits_sync_mailinglists:
  assumes run: "sync_mailinglists n api domain stored lists_arg s = (r, s')"
    and desired: "desired = desired_groups stored lists_arg"
    and L: "\<And>token ok. P (Call (GroupsList domain token) ok)"
    and G: "\<And>l rq ok. l \<in> set desired \<Longrightarrow> group_request domain l rq \<Longrightarrow> P (Call rq ok)"
    and S: "P Sleep"
  shows "emits P s s'"
proof -
  obtain a s1 where listed: "list_remote n api (GroupsList domain) s = (a, s1)"
    by (rule prod.exhaust)
  then have step: "emits P s s1" by (rule emits_list_remote) (rule L)
  show ?thesis
  proof (cases a)
    case None
    with run listed step show ?thesis by (simp add: sync_mailinglists_def)
  next
    case (Some b)
    show ?thesis
    proof (cases b)
      case (Inl e)
      with run listed step Some show ?thesis
        by (simp add: sync_mailinglists_def split: error.splits)
    next
      case (Inr existing_groups)
      with run listed Some desired
      have "sync_groups n api domain (remove_list existing_groups (map name desired))
              (insert_list existing_groups (map name desired)) desired s1 = (r, s')"
        by (simp add: sync_mailinglists_def Let_def)
      then have "emits P s1 s'"
        by (rule emits_sync_groups) (simp_all add: desired_not_removed G S)
      with step show ?thesis by (rule emits_trans)
    qed
  qed
qed

lemma group_request_target:
  "group_request domain g rq \<Longrightarrow> target rq = Some (at_domain domain (name g))"
  by (cases rq) simp_all

section \<open>Groups that are not desired\<close>

text \<open>
  C10. For every desired list and every behaviour of the directory, the pass never
  executes a group delete. The test \<open>l.name in remove_list\<close> of line 228 is made only for
  desired groups \<open>l\<close>, and \<open>remove_list\<close> holds the existing names that are not desired,
  so the test is always false and \<open>delete_group\<close> is never called. Every request the
  pass executes, apart from the listing of the groups, is addressed to a desired group:
  a remote group that is not desired receives no request. This holds for every prefix
  of a run as well (the bound \<open>n\<close> is arbitrary) and for runs that raise.
\<close>

theorem sync_never_deletes_a_group:
  "(\<forall>l \<in> set (desired_groups stored lists_arg).
      name l \<notin> set (remove_list existing (map name (desired_groups stored lists_arg)))) \<and>
   (\<exists>tr. snd (snd (sync_mailinglists n api domain stored lists_arg s)) = snd s @ tr \<and>
      (\<forall>rq \<in> set (requests tr).
         (\<forall>key. rq \<noteq> GroupsDelete key) \<and>
         (\<forall>key. target rq = Some key \<longrightarrow>
            key \<in> (\<lambda>l. at_domain domain (name l)) ` set (desired_groups stored lists_arg))))"
proof -
  let ?desired = "desired_groups stored lists_arg"
  define Q where "Q = (\<lambda>rq. (\<forall>key. rq \<noteq> GroupsDelete key) \<and>
              (\<forall>key. target rq = Some key \<longrightarrow>
                  key \<in> (\<lambda>l. at_domain domain (name l)) ` set ?desired))"
  define P where "P = (\<lambda>ev. \<forall>rq ok. ev = Call rq ok \<longrightarrow> Q rq)"
  obtain r s' where run: "sync_mailinglists n api domain stored lists_arg s = (r, s')"
    by (rule prod.exhaust)
  have "emits P s s'"
  proof (rule emits_sync_mailinglists [OF run refl])
    show "P (Call (GroupsList domain token) ok)" for token ok by (simp add: P_def Q_def)
    show "P Sleep" by (simp add: P_def)
    show "P (Call rq ok)" if "l \<in> set ?desired" and "group_request domain l rq" for l rq ok
    proof -
      have "target rq = Some (at_domain domain (name l))"
        using that(2) by (rule group_request_target)
      moreover have "rq \<noteq> GroupsDelete key" for key
        using that(2) by auto
      ultimately show ?thesis using that(1) by (simp add: P_def Q_def)
    qed
  qed
  then obtain tr where tr: "snd s' = snd s @ tr" and all: "\<And>ev. ev \<in> set tr \<Longrightarrow> P ev"
    unfolding emits_def by blast
  have "Q rq" if "rq \<in> set (requests tr)" for rq
  proof -
    from that obtain ok where "Call rq ok \<in> set tr" by (auto simp: set_requests)
    then have "P (Call rq ok)" by (rule all)
    then show ?thesis by (simp add: P_def)
  qed
  with tr run
  have "\<exists>tr. snd (snd (sync_mailinglists n api domain stored lists_arg s)) = snd s @ tr \<and>
      (\<forall>rq \<in> set (requests tr). Q rq)" by auto
  moreover have "\<forall>l \<in> set ?desired. name l \<notin> set (remove_list existing (map name ?desired))"
    by (simp add: desired_not_removed)
  ultimately show ?thesis unfolding Q_def by (rule conjI [rotated])
qed

theorem sync_never_deletes_a_group_witness:
  "snd (snd (sync_mailinglists 2 directory_api ''x.org'' []
       (Some [new_GroupData ''board'' ''The board'' [] [''kim@x.org'']])
       ([(''old@x.org'', \<lparr>rg_name = ''old'', rg_description = ''Old list'',
                           rg_aliases = [], rg_members = [''lee@x.org'']\<rparr>)], []))) =
     [Call (GroupsList ''x.org'' None) True,
      Call (GroupsInsert ''board@x.org'' ''board'' ''The board'') True, Sleep,
      Call (MembersList ''board@x.org'' None) True,
      Call (MembersInsert ''board@x.org'' ''kim@x.org'' ''MEMBER'') True] \<and>
   GroupsDelete ''old@x.org'' \<notin> set (requests (snd (snd (sync_mailinglists 2 directory_api ''x.org'' []
       (Some [new_GroupData ''board'' ''The board'' [] [''kim@x.org'']])
       ([(''old@x.org'', \<lparr>rg_name = ''old'', rg_description = ''Old list'',
                           rg_aliases = [], rg_members = [''lee@x.org'']\<rparr>)], []))))) \<and>
   Some ''old@x.org'' \<notin> target ` set (requests (snd (snd (sync_mailinglists 2 directory_api ''x.org'' []
       (Some [new_GroupData ''board'' ''The board'' [] [''kim@x.org'']])
       ([(''old@x.org'', \<lparr>rg_name = ''old'', rg_description = ''Old list'',
                           rg_aliases = [], rg_members = [''lee@x.org'']\<rparr>)], [])))))"
proof -
  define desired where "desired = [new_GroupData ''board'' ''The board'' [] [''kim@x.org'']]"
  define s :: "directory st" where
    "s = ([(''old@x.org'', \<lparr>rg_name = ''old'', rg_description = ''Old list'',
                           rg_aliases = [], rg_members = [''lee@x.org'']\<rparr>)], [])"
  define run where "run = sync_mailinglists 2 directory_api ''x.org'' [] (Some desired) s"
  have trace: "snd (snd run) =
     [Call (GroupsList ''x.org'' None) True,
      Call (GroupsInsert ''board@x.org'' ''board'' ''The board'') True, Sleep,
      Call (MembersList ''board@x.org'' None) True,
      Call (MembersInsert ''board@x.org'' ''kim@x.org'' ''MEMBER'') True]"
    unfolding run_def desired_def s_def by code_simp
  have keys: "(\<lambda>l. at_domain ''x.org'' (name l)) ` set (desired_groups [] (Some desired)) =
                {''board@x.org''}"
    by (simp add: desired_groups_def desired_def new_GroupData_def at_domain_def)
  have "\<exists>tr. snd (snd run) = snd s @ tr \<and>
      (\<forall>rq \<in> set (requests tr).
         (\<forall>key. rq \<noteq> GroupsDelete key) \<and>
         (\<forall>key. target rq = Some key \<longrightarrow>
            key \<in> (\<lambda>l. at_domain ''x.org'' (name l)) ` set (desired_groups [] (Some desired))))"
    unfolding run_def
    by (rule conjunct2 [OF sync_never_deletes_a_group [of "[]" "Some desired" "[''old'']"]])
  then obtain tr where tr: "snd (snd run) = snd s @ tr"
    and all: "\<And>rq. rq \<in> set (requests tr) \<Longrightarrow>
         (\<forall>key. rq \<noteq> GroupsDelete key) \<and>
         (\<forall>key. target rq = Some key \<longrightarrow> key \<in> {''board@x.org''})"
    unfolding keys by blast
  have same: "tr = snd (snd run)" using tr by (simp add: s_def)
  have "rq \<noteq> GroupsDelete ''old@x.org'' \<and> target rq \<noteq> Some ''old@x.org''"
    if "rq \<in> set (requests (snd (snd run)))" for rq
  proof -
    from that same have "rq \<in> set (requests tr)" by simp
    then have "(\<forall>key. rq \<noteq> GroupsDelete key) \<and>
         (\<forall>key. target rq = Some key \<longrightarrow> key \<in> {''board@x.org''})" by (rule all)
    then show ?thesis by auto
  qed
  note none = this
  have "GroupsDelete ''old@x.org'' \<notin> set (requests (snd (snd run)))"
    using none [of "GroupsDelete ''old@x.org''"] by auto
  moreover have "Some ''old@x.org'' \<notin> target ` set (requests (snd (snd run)))"
  proof
    assume "Some ''old@x.org'' \<in> target ` set (requests (snd (snd run)))"
    then obtain rq where "rq \<in> set (requests (snd (snd run)))" and "target rq = Some ''old@x.org''"
      by (auto simp: image_iff)
    with none [of rq] show False by simp
  qed
  ultimately have "GroupsDelete ''old@x.org'' \<notin> set (requests (snd (snd run))) \<and>
      Some ''old@x.org'' \<notin> target ` set (requests (snd (snd run)))" by (rule conjI)
  with trace show ?thesis unfolding run_def desired_def s_def by (rule conjI)
qed

section \<open>Failures of the listings\<close>

text \<open>
  C4. If the listing of the remote groups fails with an \<open>HttpError\<close>, at the first call
  or at any later page, \<open>sync_mailinglists\<close> returns normally in the state the failed
  listing left: the only requests of the pass are the \<open>list\<close> calls for the groups of the
  domain, so no create, update, delete, member or alias request is executed.
\<close>

theorem groups_listing_failure_abandons_pass:
  assumes "list_remote n api (GroupsList domain) s = (Some (Inl e), s1)"
  shows "sync_mailinglists n api domain stored lists_arg s = (Some (Inr ()), s1) \<and>
         (\<exists>tr. snd s1 = snd s @ tr \<and>
            (\<forall>ev \<in> set tr. \<exists>token ok. ev = Call (GroupsList domain token) ok))"
proof -
  have "sync_mailinglists n api domain stored lists_arg s = (Some (Inr ()), s1)"
    using assms by (cases e) (simp add: sync_mailinglists_def)
  moreover have "emits (\<lambda>ev. \<exists>token ok. ev = Call (GroupsList domain token) ok) s s1"
    using assms by (rule emits_list_remote) blast
  ultimately show ?thesis by (simp add: emits_def)
qed

theorem groups_listing_failure_abandons_pass_witness:
  "list_remote 5 script_api (GroupsList ''x.org'') ([page [''A''] (Some ''t''), Inl HttpError], []) =
     (Some (Inl HttpError),
      ([], [Call (GroupsList ''x.org'' None) True, Call (GroupsList ''x.org'' (Some ''t'')) False])) \<and>
   sync_mailinglists 5 script_api ''x.org'' [] (Some [new_GroupData ''C'' ''d'' [] [''n'']])
       ([page [''A''] (Some ''t''), Inl HttpError], []) =
     (Some (Inr ()),
      ([], [Call (GroupsList ''x.org'' None) True, Call (GroupsList ''x.org'' (Some ''t'')) False]))"
proof -
  have failing:
    "list_remote 5 script_api (GroupsList ''x.org'') ([page [''A''] (Some ''t''), Inl HttpError], []) =
       (Some (Inl HttpError),
        ([], [Call (GroupsList ''x.org'' None) True, Call (GroupsList ''x.org'' (Some ''t'')) False]))"
    by code_simp
  from groups_listing_failure_abandons_pass
         [OF failing, of "[]" "Some [new_GroupData ''C'' ''d'' [] [''n'']]"] failing
  show ?thesis by simp
qed

lemma update_group_members_listing_fails:
  assumes "list_remote n api (MembersList (at_domain domain (name g))) s1 = (Some (Inl e), s2)"
  shows "update_group_members n api domain g s1 = (Some (Inr ()), s2)"
  using assms by (cases e) (simp add: update_group_members_def)

text \<open>
  C5. If the listing of the members of a group \<open>g\<close> fails with an \<open>HttpError\<close>, then
  \<open>update_group_members\<close> returns normally and has executed nothing but the \<open>list\<close>
  calls for the members of \<open>g\<close>: no member is inserted or deleted. In \<open>update_group\<close> the
  aliases of \<open>g\<close> have been reconciled before (the state \<open>s1\<close> is the one
  \<open>update_group_aliases\<close> returned), \<open>update_group\<close> and \<open>create_group\<close> return normally,
  and the loop over the desired groups goes on with the groups after \<open>g\<close>.
\<close>

theorem members_listing_failure_skips_only_members:
  assumes "list_remote n api (MembersList (at_domain domain (name g))) s1 = (Some (Inl e), s2)"
  shows "update_group_members n api domain g s1 = (Some (Inr ()), s2) \<and>
    (\<exists>tr. snd s2 = snd s1 @ tr \<and>
       (\<forall>ev \<in> set tr. \<exists>token ok. ev = Call (MembersList (at_domain domain (name g)) token) ok)) \<and>
    (update_group_aliases api domain g s = (Some (Inr ()), s1) \<longrightarrow>
       update_group n api domain old_name g s = (Some (Inr ()), s2) \<and>
       (name g \<notin> set removals \<and> name g \<notin> set inserts \<longrightarrow>
          sync_groups n api domain removals inserts (g # ls) s =
          sync_groups n api domain removals inserts ls s2)) \<and>
    (execute api (GroupsInsert (at_domain domain (name g)) (name g) (description g)) s = (Inr r, s0) \<and>
     s1 = sleep s0 \<longrightarrow>
       create_group n api domain g s = (Some (Inr ()), s2) \<and>
       (name g \<notin> set removals \<and> name g \<in> set inserts \<longrightarrow>
          sync_groups n api domain removals inserts (g # ls) s =
          sync_groups n api domain removals inserts ls s2))"
proof -
  have members: "update_group_members n api domain g s1 = (Some (Inr ()), s2)"
    using assms by (rule update_group_members_listing_fails)
  have "emits (\<lambda>ev. \<exists>token ok. ev = Call (MembersList (at_domain domain (name g)) token) ok) s1 s2"
    using assms by (rule emits_list_remote) blast
  then have only_listing: "\<exists>tr. snd s2 = snd s1 @ tr \<and>
       (\<forall>ev \<in> set tr. \<exists>token ok. ev = Call (MembersList (at_domain domain (name g)) token) ok)"
    by (simp add: emits_def)
  have updated: "update_group n api domain old g s = (Some (Inr ()), s2)"
    if "update_group_aliases api domain g s = (Some (Inr ()), s1)" for old
    using that members by (simp add: update_group_def)
  have created: "create_group n api domain g s = (Some (Inr ()), s2)"
    if "execute api (GroupsInsert (at_domain domain (name g)) (name g) (description g)) s = (Inr r, s0)"
      and "s1 = sleep s0"
    using that members by (simp add: create_group_def)
  have next_after_update:
    "sync_groups n api domain removals inserts (g # ls) s =
     sync_groups n api domain removals inserts ls s2"
    if "update_group_aliases api domain g s = (Some (Inr ()), s1)"
      and "name g \<notin> set removals \<and> name g \<notin> set inserts"
    using that updated [of "name g"] by simp
  have next_after_create:
    "sync_groups n api domain removals inserts (g # ls) s =
     sync_groups n api domain removals inserts ls s2"
    if "execute api (GroupsInsert (at_domain domain (name g)) (name g) (description g)) s = (Inr r, s0)
        \<and> s1 = sleep s0"
      and "name g \<notin> set removals \<and> name g \<in> set inserts"
    using that created by simp
  show ?thesis
    using members only_listing updated created next_after_update next_after_create by blast
qed


theorem members_listing_failure_skips_only_members_witness:
  "list_remote 5 script_api (MembersList (at_domain ''x.org'' (name (new_GroupData ''B'' ''d'' [] [''m'']))))
      ([Inl HttpError, page [] None, page [] None, page [] None],
       [Call (AliasesList ''B@x.org'') True]) =
     (Some (Inl HttpError),
      ([page [] None, page [] None, page [] None],
       [Call (AliasesList ''B@x.org'') True, Call (MembersList ''B@x.org'' None) False])) \<and>
   sync_groups 5 script_api ''x.org'' [] [''C'']
      [new_GroupData ''B'' ''d'' [] [''m''], new_GroupData ''C'' ''d'' [] [''n'']]
      ([page [] None, Inl HttpError, page [] None, page [] None, page [] None], []) =
     (Some (Inr ()),
      ([], [Call (AliasesList ''B@x.org'') True, Call (MembersList ''B@x.org'' None) False,
            Call (GroupsInsert ''C@x.org'' ''C'' ''d'') True, Sleep,
            Call (MembersList ''C@x.org'' None) True,
            Call (MembersInsert ''C@x.org'' ''n'' ''MEMBER'') True]))"
proof -
  let ?B = "new_GroupData ''B'' ''d'' [] [''m'']"
  let ?s1 = "([Inl HttpError, page [] None, page [] None, page [] None],
              [Call (AliasesList ''B@x.org'') True])"
  let ?s2 = "([page [] None, page [] None, page [] None],
              [Call (AliasesList ''B@x.org'') True, Call (MembersList ''B@x.org'' None) False])"
  have failing:
    "list_remote 5 script_api (MembersList (at_domain ''x.org'' (name ?B))) ?s1 =
       (Some (Inl HttpError), ?s2)"
    by code_simp
  have aliases_done:
    "update_group_aliases script_api ''x.org'' ?B
       ([page [] None, Inl HttpError, page [] None, page [] None, page [] None], []) =
     (Some (Inr ()), ?s1)"
    by code_simp
  have names: "name ?B \<notin> set []" "name ?B \<notin> set [''C'']"
    by (simp_all add: new_GroupData_def)
  have rest:
    "sync_groups 5 script_api ''x.org'' [] [''C''] [new_GroupData ''C'' ''d'' [] [''n'']] ?s2 =
     (Some (Inr ()),
      ([], [Call (AliasesList ''B@x.org'') True, Call (MembersList ''B@x.org'' None) False,
            Call (GroupsInsert ''C@x.org'' ''C'' ''d'') True, Sleep,
            Call (MembersList ''C@x.org'' None) True,
            Call (MembersInsert ''C@x.org'' ''n'' ''MEMBER'') True]))"
    by code_simp
  have "sync_groups 5 script_api ''x.org'' [] [''C''] [?B, new_GroupData ''C'' ''d'' [] [''n'']]
          ([page [] None, Inl HttpError, page [] None, page [] None, page [] None], []) =
        sync_groups 5 script_api ''x.org'' [] [''C''] [new_GroupData ''C'' ''d'' [] [''n'']] ?s2"
    using members_listing_failure_skips_only_members
         [OF failing,
          of "([page [] None, Inl HttpError, page [] None, page [] None, page [] None], [])"
             "''B''" "[]" "[''C'']" "[new_GroupData ''C'' ''d'' [] [''n'']]"]
       aliases_done names
    by blast
  then have "sync_groups 5 script_api ''x.org'' [] [''C''] [?B, new_GroupData ''C'' ''d'' [] [''n'']]
          ([page [] None, Inl HttpError, page [] None, page [] None, page [] None], []) =
     (Some (Inr ()),
      ([], [Call (AliasesList ''B@x.org'') True, Call (MembersList ''B@x.org'' None) False,
            Call (GroupsInsert ''C@x.org'' ''C'' ''d'') True, Sleep,
            Call (MembersList ''C@x.org'' None) True,
            Call (MembersInsert ''C@x.org'' ''n'' ''MEMBER'') True]))"
    using rest by (rule trans)
  with failing show ?thesis by (rule conjI)
qed

section \<open>Two requests that are never sent\<close>

text \<open>
  C1. The claim: a group that exists remotely and is not desired is deleted; with the
  remote groups A and B and the desired groups B and C the pass deletes A, creates C
  and updates B. The pass below runs on the reference directory holding A and B: it
  updates B and creates C, executes no \<open>GroupsDelete\<close>, and A is still in the directory
  afterwards. The branch of line 228 that calls \<open>delete_group\<close> is inside the loop over
  the desired groups, where its test cannot hold.
\<close>

theorem stale_group_is_not_deleted:
  "sync_mailinglists 1 directory_api ''x.org'' []
     (Some [new_GroupData ''B'' ''Group B'' [] [''m@x.org''],
            new_GroupData ''C'' ''Group C'' [] [''n@x.org'']])
     ([(''A@x.org'', \<lparr>rg_name = ''A'', rg_description = ''Group A'',
                         rg_aliases = [], rg_members = [''q@x.org'']\<rparr>),
       (''B@x.org'', \<lparr>rg_name = ''B'', rg_description = ''Group B'',
                         rg_aliases = [], rg_members = [''m@x.org'']\<rparr>)], []) =
   (Some (Inr ()),
    [(''A@x.org'', \<lparr>rg_name = ''A'', rg_description = ''Group A'',
                        rg_aliases = [], rg_members = [''q@x.org'']\<rparr>),
     (''B@x.org'', \<lparr>rg_name = ''B'', rg_description = ''Group B'',
                        rg_aliases = [], rg_members = [''m@x.org'']\<rparr>),
     (''C@x.org'', \<lparr>rg_name = ''C'', rg_description = ''Group C'',
                        rg_aliases = [], rg_members = [''n@x.org'']\<rparr>)],
    [Call (GroupsList ''x.org'' None) True,
     Call (AliasesList ''B@x.org'') True,
     Call (MembersList ''B@x.org'' None) True,
     Call (GroupsInsert ''C@x.org'' ''C'' ''Group C'') True, Sleep,
     Call (MembersList ''C@x.org'' None) True,
     Call (MembersInsert ''C@x.org'' ''n@x.org'' ''MEMBER'') True])"
  by code_simp

text \<open>
  C7. The claim: for a group that is desired and exists, the pass updates the display
  fields of the remote group, then reconciles its aliases, then its members. The pass
  below runs on a directory whose group B has an old description: the requests are the
  listing of the groups, of the aliases and of the members of B, no \<open>GroupsUpdate\<close> is
  among them, and the description in the directory is the old one afterwards.
  \<open>update_group\<close> builds the update request and never calls \<open>.execute()\<close> on it.
\<close>

theorem update_request_is_never_executed:
  "sync_mailinglists 1 directory_api ''x.org'' []
     (Some [new_GroupData ''B'' ''New description'' [] [''m@x.org'']])
     ([(''B@x.org'', \<lparr>rg_name = ''B'', rg_description = ''Old description'',
                         rg_aliases = [], rg_members = [''m@x.org'']\<rparr>)], []) =
   (Some (Inr ()),
    [(''B@x.org'', \<lparr>rg_name = ''B'', rg_description = ''Old description'',
                        rg_aliases = [], rg_members = [''m@x.org'']\<rparr>)],
    [Call (GroupsList ''x.org'' None) True,
     Call (AliasesList ''B@x.org'') True,
     Call (MembersList ''B@x.org'' None) True])"
  by code_simp

section \<open>What is raised to the caller\<close>

lemma execute_raised_trace:
  "execute api rq s = (Inl e, s') \<Longrightarrow> snd s' = snd s @ [Call rq False]"
  by (cases rule: execute_cases [of api rq s]) auto

lemma execute_returned_trace:
  "execute api rq s = (Inr r, s') \<Longrightarrow> snd s' = snd s @ [Call rq True]"
  by (cases rule: execute_cases [of api rq s]) auto

lemma create_group_raised:
  assumes "create_group n api domain g s = (Some (Inl e), s')"
  shows "snd s' = snd s @ [Call (GroupsInsert (at_domain domain (name g)) (name g) (description g)) False]"
proof -
  let ?rq = "GroupsInsert (at_domain domain (name g)) (name g) (description g)"
  obtain a s1 where inserted: "execute api ?rq s = (a, s1)" by (rule prod.exhaust)
  show ?thesis
  proof (cases a)
    case (Inl e')
    with assms inserted have "s' = s1" by (simp add: create_group_def)
    with inserted Inl show ?thesis by (simp add: execute_raised_trace)
  next
    case (Inr resp)
    with assms inserted have "update_group_members n api domain g (sleep s1) = (Some (Inl e), s')"
      by (simp add: create_group_def)
    then have "fst (update_group_members n api domain g (sleep s1)) = Some (Inl e)" by simp
    with update_group_members_never_raises show ?thesis by blast
  qed
qed

lemma update_group_aliases_raised:
  assumes "update_group_aliases api domain g s = (Some (Inl e), s')"
  shows "snd s' = snd s @ [Call (AliasesList (at_domain domain (name g))) False]"
proof -
  obtain a s1 where listed: "execute api (AliasesList (at_domain domain (name g))) s = (a, s1)"
    by (rule prod.exhaust)
  show ?thesis
  proof (cases a)
    case (Inl e')
    with assms listed have "s' = s1" by (simp add: update_group_aliases_def)
    with listed Inl show ?thesis by (simp add: execute_raised_trace)
  next
    case (Inr resp)
    with assms listed show ?thesis by (simp add: update_group_aliases_def Let_def)
  qed
qed

lemma update_group_raised:
  assumes "update_group n api domain old_name g s = (Some (Inl e), s')"
  shows "snd s' = snd s @ [Call (AliasesList (at_domain domain (name g))) False]"
proof -
  obtain a s1 where al: "update_group_aliases api domain g s = (a, s1)" by (rule prod.exhaust)
  show ?thesis
  proof (cases "a = Some (Inr ())")
    case True
    with assms al have "fst (update_group_members n api domain g s1) = Some (Inl e)"
      by (simp add: update_group_def)
    with update_group_members_never_raises show ?thesis by blast
  next
    case False
    with assms al have "a = Some (Inl e)" and "s' = s1"
      by (auto simp: update_group_def split: option.splits sum.splits)
    with al show ?thesis by (simp add: update_group_aliases_raised)
  qed
qed

lemma sync_groups_raised:
  assumes "sync_groups n api domain removals inserts ls s = (Some (Inl e), s')"
    and "\<And>l. l \<in> set ls \<Longrightarrow> name l \<notin> set removals"
  shows "\<exists>l \<in> set ls. \<exists>tr rq. raising_request domain l rq \<and> snd s' = snd s @ tr @ [Call rq False]"
  using assms
proof (induction ls arbitrary: s)
  case Nil
  then show ?case by simp
next
  case (Cons l ls)
  let ?step = "if name l \<in> set inserts then create_group n api domain l s
               else update_group n api domain (name l) l s"
  obtain a s1 where step: "?step = (a, s1)" by (rule prod.exhaust)
  have keep: "name l \<notin> set removals" by (rule Cons.prems(2)) simp
  show ?case
  proof (cases "a = Some (Inr ())")
    case True
    with Cons.prems(1) step keep
    have "sync_groups n api domain removals inserts ls s1 = (Some (Inl e), s')" by simp
    moreover have "name k \<notin> set removals" if "k \<in> set ls" for k
      using that by (simp add: Cons.prems(2))
    ultimately obtain k tr rq where k: "k \<in> set ls" "raising_request domain k rq"
      and tr: "snd s' = snd s1 @ tr @ [Call rq False]"
      using Cons.IH by blast
    have "emits (\<lambda>ev. True) s s1"
    proof (cases "name l \<in> set inserts")
      case True
      with step have "create_group n api domain l s = (a, s1)" by simp
      then show ?thesis by (rule emits_create_group) simp_all
    next
      case False
      with step have "update_group n api domain (name l) l s = (a, s1)" by simp
      then show ?thesis by (rule emits_update_group) simp
    qed
    then obtain tr0 where "snd s1 = snd s @ tr0" by (auto simp: emits_def)
    with tr have "snd s' = snd s @ (tr0 @ tr) @ [Call rq False]" by simp
    with k show ?thesis by (intro bexI [of _ k] exI conjI) simp_all
  next
    case False
    with Cons.prems(1) step keep have a: "a = Some (Inl e)" and s': "s' = s1"
      by (auto split: option.splits sum.splits)
    have "\<exists>rq. raising_request domain l rq \<and> snd s1 = snd s @ [] @ [Call rq False]"
    proof (cases "name l \<in> set inserts")
      case True
      with step a have "create_group n api domain l s = (Some (Inl e), s1)" by simp
      then show ?thesis by (auto simp: raising_request_def dest: create_group_raised)
    next
      case False
      with step a have "update_group n api domain (name l) l s = (Some (Inl e), s1)" by simp
      then show ?thesis by (auto simp: raising_request_def dest: update_group_raised)
    qed
    with s' show ?thesis by (intro bexI [of _ l]) auto
  qed
qed

lemma emits_to_prefix: "emits P s s' \<Longrightarrow> \<exists>tr. snd s' = snd s @ tr"
  by (auto simp: emits_def)

lemma sync_mailinglists_raised:
  assumes run: "sync_mailinglists n api domain stored lists_arg s = (Some (Inl e), s')"
  shows "\<exists>l \<in> set (desired_groups stored lists_arg).
           \<exists>tr rq. raising_request domain l rq \<and> snd s' = snd s @ tr @ [Call rq False]"
proof -
  let ?desired = "desired_groups stored lists_arg"
  obtain a s1 where listed: "list_remote n api (GroupsList domain) s = (a, s1)"
    by (rule prod.exhaust)
  then have "emits (\<lambda>ev. True) s s1" by (rule emits_list_remote) simp
  then obtain tr0 where tr0: "snd s1 = snd s @ tr0" by (auto simp: emits_def)
  show ?thesis
  proof (cases a)
    case None
    with run listed show ?thesis by (simp add: sync_mailinglists_def)
  next
    case (Some b)
    show ?thesis
    proof (cases b)
      case (Inl e')
      with run listed Some show ?thesis
        by (simp add: sync_mailinglists_def split: error.splits)
    next
      case (Inr existing_groups)
      with run listed Some
      have "sync_groups n api domain (remove_list existing_groups (map name ?desired))
              (insert_list existing_groups (map name ?desired)) ?desired s1 = (Some (Inl e), s')"
        by (simp add: sync_mailinglists_def Let_def)
      then obtain l tr rq where l: "l \<in> set ?desired" "raising_request domain l rq"
        and tr: "snd s' = snd s1 @ tr @ [Call rq False]"
        using sync_groups_raised desired_not_removed by blast
      from tr tr0 have "snd s' = snd s @ (tr0 @ tr) @ [Call rq False]" by simp
      with l show ?thesis by (intro bexI [of _ l] exI conjI) simp_all
    qed
  qed
qed

text \<open>
  C2. The claim: for every pattern of \<open>HttpError\<close>s of single requests, the pass absorbs
  the failure and never raises to its caller. It fails: the insert of \<open>create_group\<close> is
  executed outside any \<open>try\<close>. Below, the directory answers the listing of the groups
  with an empty page and fails the insert of the desired group C; \<open>sync_mailinglists\<close>
  raises the \<open>HttpError\<close>.
\<close>

theorem failed_group_insert_is_raised:
  "sync_mailinglists 1 script_api ''x.org'' []
     (Some [new_GroupData ''C'' ''Group C'' [] [''n@x.org'']])
     ([page [] None, Inl HttpError], []) =
   (Some (Inl HttpError),
    ([], [Call (GroupsList ''x.org'' None) True,
          Call (GroupsInsert ''C@x.org'' ''C'' ''Group C'') False]))"
  by code_simp

text \<open>
  C2, as amended. An \<open>HttpError\<close> of the listing of the groups, of a listing of members
  and of every single insert or delete of an alias or a member is absorbed: when
  \<open>sync_mailinglists\<close> raises, the last request it executed is a failed insert of a
  desired group or a failed listing of the aliases of a desired group, and
  \<open>update_group_members\<close> never raises. A failed insert of a group is raised by
  \<open>create_group\<close> and ends the loop over the desired groups: the groups after it are
  not processed.
\<close>

theorem raises_only_from_group_insert_or_alias_listing:
  "(sync_mailinglists n api domain stored lists_arg s = (Some (Inl e), s') \<longrightarrow>
      (\<exists>l \<in> set (desired_groups stored lists_arg). \<exists>tr rq.
          raising_request domain l rq \<and> snd s' = snd s @ tr @ [Call rq False])) \<and>
   fst (update_group_members n api domain g s) \<noteq> Some (Inl e) \<and>
   (execute api (GroupsInsert (at_domain domain (name g)) (name g) (description g)) s = (Inl e, s1)
      \<longrightarrow>
      create_group n api domain g s = (Some (Inl e), s1) \<and>
      (name g \<notin> set removals \<and> name g \<in> set inserts \<longrightarrow>
         sync_groups n api domain removals inserts (g # ls) s = (Some (Inl e), s1)))"
proof -
  have created: "create_group n api domain g s = (Some (Inl e), s1)"
    if "execute api (GroupsInsert (at_domain domain (name g)) (name g) (description g)) s = (Inl e, s1)"
    using that by (simp add: create_group_def)
  have ended: "sync_groups n api domain removals inserts (g # ls) s = (Some (Inl e), s1)"
    if "execute api (GroupsInsert (at_domain domain (name g)) (name g) (description g)) s = (Inl e, s1)"
      and "name g \<notin> set removals \<and> name g \<in> set inserts"
    using that created by simp
  show ?thesis
    using sync_mailinglists_raised [of n api domain stored lists_arg s e s']
      update_group_members_never_raises [of n api domain g s e] created ended
    by blast
qed

theorem raises_only_from_group_insert_or_alias_listing_witness:
  "sync_mailinglists 1 directory_api ''x.org'' []
     (Some [new_GroupData ''C'' ''Group C'' [] [''n@x.org''],
            new_GroupData ''D'' ''Group D'' [] []])
     ([(''C@x.org'', \<lparr>rg_name = ''Committee'', rg_description = ''Group C'',
                         rg_aliases = [], rg_members = []\<rparr>)], []) =
   (Some (Inl HttpError),
    ([(''C@x.org'', \<lparr>rg_name = ''Committee'', rg_description = ''Group C'',
                         rg_aliases = [], rg_members = []\<rparr>)],
     [Call (GroupsList ''x.org'' None) True,
      Call (GroupsInsert ''C@x.org'' ''C'' ''Group C'') False])) \<and>
   (\<exists>l \<in> set (desired_groups [] (Some [new_GroupData ''C'' ''Group C'' [] [''n@x.org''],
            new_GroupData ''D'' ''Group D'' [] []])). \<exists>tr rq.
      raising_request ''x.org'' l rq \<and>
      [Call (GroupsList ''x.org'' None) True,
       Call (GroupsInsert ''C@x.org'' ''C'' ''Group C'') False] = tr @ [Call rq False]) \<and>
   sync_groups 1 directory_api ''x.org'' [''Committee''] [''C'', ''D'']
     [new_GroupData ''C'' ''Group C'' [] [''n@x.org''], new_GroupData ''D'' ''Group D'' [] []]
     ([(''C@x.org'', \<lparr>rg_name = ''Committee'', rg_description = ''Group C'',
                         rg_aliases = [], rg_members = []\<rparr>)],
      [Call (GroupsList ''x.org'' None) True]) =
   (Some (Inl HttpError),
    ([(''C@x.org'', \<lparr>rg_name = ''Committee'', rg_description = ''Group C'',
                         rg_aliases = [], rg_members = []\<rparr>)],
     [Call (GroupsList ''x.org'' None) True,
      Call (GroupsInsert ''C@x.org'' ''C'' ''Group C'') False]))"
proof -
  define d :: directory where
    "d = [(''C@x.org'', \<lparr>rg_name = ''Committee'', rg_description = ''Group C'',
                         rg_aliases = [], rg_members = []\<rparr>)]"
  define C where "C = new_GroupData ''C'' ''Group C'' [] [''n@x.org'']"
  define D where "D = new_GroupData ''D'' ''Group D'' [] []"
  define tr1 where "tr1 = [Call (GroupsList ''x.org'' None) True,
      Call (GroupsInsert ''C@x.org'' ''C'' ''Group C'') False]"
  note main = raises_only_from_group_insert_or_alias_listing
  have run: "sync_mailinglists 1 directory_api ''x.org'' [] (Some [C, D]) (d, []) =
               (Some (Inl HttpError), (d, tr1))"
    unfolding d_def C_def D_def tr1_def by code_simp
  have "\<exists>l \<in> set (desired_groups [] (Some [C, D])). \<exists>tr rq.
          raising_request ''x.org'' l rq \<and> snd (d, tr1) = snd (d, []) @ tr @ [Call rq False]"
    using main [THEN conjunct1] run by (rule mp)
  then have last_call: "\<exists>l \<in> set (desired_groups [] (Some [C, D])). \<exists>tr rq.
          raising_request ''x.org'' l rq \<and> tr1 = tr @ [Call rq False]"
    by simp
  have insert_fails:
    "execute directory_api (GroupsInsert (at_domain ''x.org'' (name C)) (name C) (description C))
       (d, [Call (GroupsList ''x.org'' None) True]) = (Inl HttpError, (d, tr1))"
    unfolding d_def C_def tr1_def by code_simp
  have names: "name C \<notin> set [''Committee''] \<and> name C \<in> set [''C'', ''D'']"
    by (simp add: C_def new_GroupData_def)
  have "sync_groups 1 directory_api ''x.org'' [''Committee''] [''C'', ''D''] (C # [D])
          (d, [Call (GroupsList ''x.org'' None) True]) = (Some (Inl HttpError), (d, tr1))"
    using main [THEN conjunct2, THEN conjunct2, THEN mp, OF insert_fails, THEN conjunct2] names
    by (rule mp)
  with run last_call show ?thesis
    unfolding d_def C_def D_def tr1_def by simp
qed

section \<open>Creating a group\<close>

lemma try_execute_trace: "\<exists>ok. snd (try_execute api rq s) = snd s @ [Call rq ok]"
  by (cases rule: execute_cases [of api rq s]) (auto simp: try_execute_def split: error.splits)

lemma fold_try_execute_trace:
  "\<exists>tr. snd (fold (\<lambda>x. try_execute api (f x)) xs s) = snd s @ tr \<and>
        list_all2 (\<lambda>ev x. \<exists>ok. ev = Call (f x) ok) tr xs"
proof (induction xs arbitrary: s)
  case Nil
  show ?case by simp
next
  case (Cons x xs)
  obtain ok where first: "snd (try_execute api (f x) s) = snd s @ [Call (f x) ok]"
    using try_execute_trace by blast
  obtain tr where rest: "snd (fold (\<lambda>x. try_execute api (f x)) xs (try_execute api (f x) s)) =
      snd (try_execute api (f x) s) @ tr" and all: "list_all2 (\<lambda>ev x. \<exists>ok. ev = Call (f x) ok) tr xs"
    using Cons.IH by blast
  have "snd (fold (\<lambda>x. try_execute api (f x)) (x # xs) s) = snd s @ (Call (f x) ok # tr)"
    using first rest by simp
  moreover have "list_all2 (\<lambda>ev x. \<exists>ok. ev = Call (f x) ok) (Call (f x) ok # tr) (x # xs)"
    using all by simp
  ultimately show ?case by blast
qed

lemma insert_list_Nil: "insert_list [] new = new"
  by (simp add: insert_list_def)

lemma remove_list_Nil: "remove_list [] new = []"
  by (simp add: remove_list_def)

lemma update_group_members_of_empty_group:
  assumes "list_remote n api (MembersList (at_domain domain (name g))) s = (Some (Inr []), s2)"
  shows "update_group_members n api domain g s =
           (Some (Inr ()),
            fold (\<lambda>m. try_execute api (MembersInsert (at_domain domain (name g)) m ''MEMBER''))
              (addresses g) s2)"
  using assms by (simp add: update_group_members_def insert_list_Nil remove_list_Nil)

lemma create_group_at_loop_step:
  assumes absent: "name g \<notin> set existing" and wanted: "g \<in> set desired"
    and inserted: "execute api (GroupsInsert (at_domain domain (name g)) (name g) (description g)) s
                     = (Inr r, s1)"
    and listed: "list_remote n api (MembersList (at_domain domain (name g))) (sleep s1)
                   = (Some (Inr []), s2)"
  shows "\<exists>s3 listing inserting.
      create_group n api domain g s = (Some (Inr ()), s3) \<and>
      sync_groups n api domain (remove_list existing (map name desired))
          (insert_list existing (map name desired)) (g # ls) s =
        sync_groups n api domain (remove_list existing (map name desired))
          (insert_list existing (map name desired)) ls s3 \<and>
      snd s3 = snd s @ [Call (GroupsInsert (at_domain domain (name g)) (name g) (description g)) True,
                        Sleep] @ listing @ inserting \<and>
      (\<forall>ev \<in> set listing. \<exists>token ok. ev = Call (MembersList (at_domain domain (name g)) token) ok) \<and>
      list_all2 (\<lambda>ev a. \<exists>ok. ev = Call (MembersInsert (at_domain domain (name g)) a ''MEMBER'') ok)
        inserting (addresses g)"
proof -
  let ?key = "at_domain domain (name g)"
  let ?s3 = "fold (\<lambda>m. try_execute api (MembersInsert ?key m ''MEMBER'')) (addresses g) s2"
  have created: "create_group n api domain g s = (Some (Inr ()), ?s3)"
    using inserted update_group_members_of_empty_group [OF listed]
    by (simp add: create_group_def)
  have "name g \<notin> set (remove_list existing (map name desired))"
    using wanted by (rule desired_not_removed)
  moreover have "name g \<in> set (insert_list existing (map name desired))"
    using absent wanted by (simp add: set_insert_list)
  ultimately have continued:
    "sync_groups n api domain (remove_list existing (map name desired))
          (insert_list existing (map name desired)) (g # ls) s =
        sync_groups n api domain (remove_list existing (map name desired))
          (insert_list existing (map name desired)) ls ?s3"
    using created by simp
  have t1: "snd (sleep s1) =
      snd s @ [Call (GroupsInsert ?key (name g) (description g)) True, Sleep]"
    using execute_returned_trace [OF inserted] by (simp add: sleep_def)
  have "emits (\<lambda>ev. \<exists>token ok. ev = Call (MembersList ?key token) ok) (sleep s1) s2"
    using listed by (rule emits_list_remote) blast
  then obtain listing where t2: "snd s2 = snd (sleep s1) @ listing"
    and only_listing: "\<forall>ev \<in> set listing. \<exists>token ok. ev = Call (MembersList ?key token) ok"
    by (auto simp: emits_def)
  obtain inserting where t3: "snd ?s3 = snd s2 @ inserting"
    and all: "list_all2 (\<lambda>ev a. \<exists>ok. ev = Call (MembersInsert ?key a ''MEMBER'') ok)
        inserting (addresses g)"
    using fold_try_execute_trace [of api "\<lambda>m. MembersInsert ?key m ''MEMBER''" "addresses g" s2]
    by blast
  have "snd ?s3 = snd s @ [Call (GroupsInsert ?key (name g) (description g)) True, Sleep]
                    @ listing @ inserting"
    using t1 t2 t3 by simp
  with created continued only_listing all show ?thesis by blast
qed

lemma sync_groups_append:
  "sync_groups n api domain removals inserts (xs @ ys) s =
     (case sync_groups n api domain removals inserts xs s of
        (Some (Inr u), s') \<Rightarrow> sync_groups n api domain removals inserts ys s'
      | (r, s') \<Rightarrow> (r, s'))"
proof (induction xs arbitrary: s)
  case Nil
  show ?case by simp
next
  case (Cons x xs)
  show ?case
    by (simp add: Cons.IH split: prod.splits option.splits sum.splits)
qed

lemma sync_groups_extends:
  "\<exists>tr. snd (snd (sync_groups n api domain removals inserts ls s)) = snd s @ tr"
proof (induction ls arbitrary: s)
  case Nil
  show ?case by simp
next
  case (Cons l ls)
  define res where "res = (if name l \<in> set removals then delete_group api domain l s
            else if name l \<in> set inserts then create_group n api domain l s
            else update_group n api domain (name l) l s)"
  obtain a s1 where res: "res = (a, s1)" by (rule prod.exhaust)
  have "emits (\<lambda>ev. True) s s1"
  proof (cases "name l \<in> set removals")
    case True
    with res have "delete_group api domain l s = (a, s1)" by (simp add: res_def)
    then show ?thesis
      by (cases rule: execute_cases [of api "GroupsDelete (at_domain domain (name l))" s])
         (auto simp: delete_group_def emits_def)
  next
    case False
    show ?thesis
    proof (cases "name l \<in> set inserts")
      case True
      with res False have "create_group n api domain l s = (a, s1)" by (simp add: res_def)
      then show ?thesis by (rule emits_create_group) simp_all
    next
      case no: False
      with res False have "update_group n api domain (name l) l s = (a, s1)" by (simp add: res_def)
      then show ?thesis by (rule emits_update_group) simp
    qed
  qed
  then obtain t1 where t1: "snd s1 = snd s @ t1" by (auto simp: emits_def)
  have unfolded: "sync_groups n api domain removals inserts (l # ls) s =
      (case res of (Some (Inr u), s') \<Rightarrow> sync_groups n api domain removals inserts ls s'
                 | (r, s') \<Rightarrow> (r, s'))"
    by (simp add: res_def)
  show ?case
  proof (cases "a = Some (Inr ())")
    case True
    obtain t2 where "snd (snd (sync_groups n api domain removals inserts ls s1)) = snd s1 @ t2"
      using Cons.IH by blast
    with t1 True res show ?thesis unfolding unfolded by simp
  next
    case False
    with res have "snd (sync_groups n api domain removals inserts (l # ls) s) = s1"
      unfolding unfolded by (auto split: option.splits sum.splits)
    with t1 show ?thesis by simp
  qed
qed

text \<open>
  C8. The claim: for every group that is desired and not among the existing remote
  groups, the pass inserts the group and then, after the delay, issues exactly the
  member inserts needed to reach the desired members, and no member delete. It fails in
  three ways, one run each below. First run: the group C is inserted, the listing of
  its members fails, and the pass returns with no member inserted. Second run: the
  insert of C fails and is raised, so the group D, desired and absent too, is never
  inserted. Third run: the address \<open>n@x.org\<close> is twice among the desired addresses of C
  and is inserted twice, the second time in vain.
\<close>

theorem created_group_can_stay_without_members:
  "sync_mailinglists 0 script_api ''x.org'' []
     (Some [new_GroupData ''C'' ''Group C'' [] [''n@x.org'']])
     ([page [] None, page [] None, Inl HttpError], []) =
   (Some (Inr ()),
    ([], [Call (GroupsList ''x.org'' None) True,
          Call (GroupsInsert ''C@x.org'' ''C'' ''Group C'') True, Sleep,
          Call (MembersList ''C@x.org'' None) False])) \<and>
   sync_mailinglists 0 script_api ''x.org'' []
     (Some [new_GroupData ''C'' ''Group C'' [] [''n@x.org''],
            new_GroupData ''D'' ''Group D'' [] [''o@x.org'']])
     ([page [] None, Inl HttpError, page [] None, page [] None, page [] None], []) =
   (Some (Inl HttpError),
    ([page [] None, page [] None, page [] None],
     [Call (GroupsList ''x.org'' None) True,
      Call (GroupsInsert ''C@x.org'' ''C'' ''Group C'') False])) \<and>
   sync_mailinglists 0 directory_api ''x.org'' []
     (Some [new_GroupData ''C'' ''Group C'' [] [''n@x.org'', ''n@x.org'']]) ([], []) =
   (Some (Inr ()),
    ([(''C@x.org'', \<lparr>rg_name = ''C'', rg_description = ''Group C'', rg_aliases = [],
                       rg_members = [''n@x.org'']\<rparr>)],
     [Call (GroupsList ''x.org'' None) True,
      Call (GroupsInsert ''C@x.org'' ''C'' ''Group C'') True, Sleep,
      Call (MembersList ''C@x.org'' None) True,
      Call (MembersInsert ''C@x.org'' ''n@x.org'' ''MEMBER'') True,
      Call (MembersInsert ''C@x.org'' ''n@x.org'' ''MEMBER'') False]))"
  by code_simp

text \<open>
  C8, as amended. Let the listing of the remote groups succeed, let \<open>g\<close> be a desired
  group whose name is not among the listed names, and let the pass reach \<open>g\<close>: the
  operations on the desired groups before \<open>g\<close> return normally. When the insert of \<open>g\<close>
  succeeds and the listing of its members succeeds and returns no member, the pass
  executes for \<open>g\<close>, in this order: the insert of the group, \<open>sleep(0.5)\<close>, the \<open>list\<close>
  calls for its members, and one member insert with role MEMBER for each element of the
  desired addresses of \<open>g\<close>, in their order and with their repetitions; it executes no
  member delete for \<open>g\<close>, and it goes on with the desired groups after \<open>g\<close>.
\<close>

theorem missing_group_is_created_with_its_members:
  assumes listed: "list_remote n api (GroupsList domain) s = (Some (Inr existing), s0)"
    and position: "desired_groups stored lists_arg = earlier @ g # later"
    and absent: "name g \<notin> set existing"
    and reached:
      "sync_groups n api domain
         (remove_list existing (map name (earlier @ g # later)))
         (insert_list existing (map name (earlier @ g # later))) earlier s0 = (Some (Inr ()), s1)"
    and inserted:
      "execute api (GroupsInsert (at_domain domain (name g)) (name g) (description g)) s1
         = (Inr r, s2)"
    and no_members:
      "list_remote n api (MembersList (at_domain domain (name g))) (sleep s2) = (Some (Inr []), s3)"
  shows "\<exists>s4 listing inserting rest.
      snd s4 = snd s1 @ [Call (GroupsInsert (at_domain domain (name g)) (name g) (description g)) True,
                         Sleep] @ listing @ inserting \<and>
      (\<forall>ev \<in> set listing. \<exists>token ok. ev = Call (MembersList (at_domain domain (name g)) token) ok) \<and>
      list_all2 (\<lambda>ev a. \<exists>ok. ev = Call (MembersInsert (at_domain domain (name g)) a ''MEMBER'') ok)
        inserting (addresses g) \<and>
      sync_mailinglists n api domain stored lists_arg s =
        sync_groups n api domain
          (remove_list existing (map name (earlier @ g # later)))
          (insert_list existing (map name (earlier @ g # later))) later s4 \<and>
      snd (snd (sync_mailinglists n api domain stored lists_arg s)) = snd s4 @ rest"
proof -
  let ?desired = "earlier @ g # later"
  let ?removals = "remove_list existing (map name ?desired)"
  let ?inserts = "insert_list existing (map name ?desired)"
  have wanted: "g \<in> set ?desired" by simp
  obtain s4 listing inserting where
    step: "sync_groups n api domain ?removals ?inserts (g # later) s1 =
             sync_groups n api domain ?removals ?inserts later s4"
    and trace: "snd s4 = snd s1 @ [Call (GroupsInsert (at_domain domain (name g)) (name g)
                                      (description g)) True, Sleep] @ listing @ inserting"
    and listing: "\<forall>ev \<in> set listing.
                    \<exists>token ok. ev = Call (MembersList (at_domain domain (name g)) token) ok"
    and inserting: "list_all2
        (\<lambda>ev a. \<exists>ok. ev = Call (MembersInsert (at_domain domain (name g)) a ''MEMBER'') ok)
        inserting (addresses g)"
    using create_group_at_loop_step [OF absent wanted inserted no_members, of later] by blast
  have "sync_mailinglists n api domain stored lists_arg s =
          sync_groups n api domain ?removals ?inserts ?desired s0"
    using listed position by (simp add: sync_mailinglists_def Let_def)
  also have "\<dots> = sync_groups n api domain ?removals ?inserts (g # later) s1"
    using reached by (simp add: sync_groups_append del: sync_groups.simps)
  also note step
  finally have pass: "sync_mailinglists n api domain stored lists_arg s =
      sync_groups n api domain ?removals ?inserts later s4" .
  obtain rest where
    "snd (snd (sync_groups n api domain ?removals ?inserts later s4)) = snd s4 @ rest"
    using sync_groups_extends by blast
  with pass have "snd (snd (sync_mailinglists n api domain stored lists_arg s)) = snd s4 @ rest"
    by simp
  with trace listing inserting pass show ?thesis by blast
qed

theorem missing_group_is_created_with_its_members_witness:
  "list_remote 0 directory_api (GroupsList ''x.org'')
     ([(''B@x.org'', \<lparr>rg_name = ''B'', rg_description = ''Group B'', rg_aliases = [],
                       rg_members = [''m@x.org'']\<rparr>)], []) =
   (Some (Inr [''B'']),
    ([(''B@x.org'', \<lparr>rg_name = ''B'', rg_description = ''Group B'', rg_aliases = [],
                       rg_members = [''m@x.org'']\<rparr>)],
     [Call (GroupsList ''x.org'' None) True])) \<and>
   sync_groups 0 directory_api ''x.org''
     (remove_list [''B''] (map name ([new_GroupData ''B'' ''Group B'' [] [''m@x.org'']] @ new_GroupData ''C'' ''Group C'' [] [''n@x.org'', ''o@x.org''] # [new_GroupData ''D'' ''Group D'' [] []])))
     (insert_list [''B''] (map name ([new_GroupData ''B'' ''Group B'' [] [''m@x.org'']] @ new_GroupData ''C'' ''Group C'' [] [''n@x.org'', ''o@x.org''] # [new_GroupData ''D'' ''Group D'' [] []])))
     [new_GroupData ''B'' ''Group B'' [] [''m@x.org'']]
     ([(''B@x.org'', \<lparr>rg_name = ''B'', rg_description = ''Group B'', rg_aliases = [],
                       rg_members = [''m@x.org'']\<rparr>)],
      [Call (GroupsList ''x.org'' None) True]) =
   (Some (Inr ()),
    ([(''B@x.org'', \<lparr>rg_name = ''B'', rg_description = ''Group B'', rg_aliases = [],
                       rg_members = [''m@x.org'']\<rparr>)],
     [Call (GroupsList ''x.org'' None) True,
      Call (AliasesList ''B@x.org'') True,
      Call (MembersList ''B@x.org'' None) True])) \<and>
   execute directory_api
     (GroupsInsert (at_domain ''x.org'' (name (new_GroupData ''C'' ''Group C'' [] [''n@x.org'', ''o@x.org'']))) (name (new_GroupData ''C'' ''Group C'' [] [''n@x.org'', ''o@x.org''])) (description (new_GroupData ''C'' ''Group C'' [] [''n@x.org'', ''o@x.org''])))
     ([(''B@x.org'', \<lparr>rg_name = ''B'', rg_description = ''Group B'', rg_aliases = [],
                       rg_members = [''m@x.org'']\<rparr>)],
      [Call (GroupsList ''x.org'' None) True,
      Call (AliasesList ''B@x.org'') True,
      Call (MembersList ''B@x.org'' None) True]) =
   (Inr \<lparr>entries = [], nextPageToken = None\<rparr>,
    ([(''B@x.org'', \<lparr>rg_name = ''B'', rg_description = ''Group B'', rg_aliases = [],
                       rg_members = [''m@x.org'']\<rparr>),
      (''C@x.org'', \<lparr>rg_name = ''C'', rg_description = ''Group C'', rg_aliases = [],
                       rg_members = []\<rparr>)],
     [Call (GroupsList ''x.org'' None) True,
      Call (AliasesList ''B@x.org'') True,
      Call (MembersList ''B@x.org'' None) True,
      Call (GroupsInsert ''C@x.org'' ''C'' ''Group C'') True])) \<and>
   list_remote 0 directory_api (MembersList (at_domain ''x.org'' (name (new_GroupData ''C'' ''Group C'' [] [''n@x.org'', ''o@x.org'']))))
     (sleep
       ([(''B@x.org'', \<lparr>rg_name = ''B'', rg_description = ''Group B'', rg_aliases = [],
                       rg_members = [''m@x.org'']\<rparr>),
         (''C@x.org'', \<lparr>rg_name = ''C'', rg_description = ''Group C'', rg_aliases = [],
                       rg_members = []\<rparr>)],
        [Call (GroupsList ''x.org'' None) True,
      Call (AliasesList ''B@x.org'') True,
      Call (MembersList ''B@x.org'' None) True,
      Call (GroupsInsert ''C@x.org'' ''C'' ''Group C'') True])) =
   (Some (Inr []),
    ([(''B@x.org'', \<lparr>rg_name = ''B'', rg_description = ''Group B'', rg_aliases = [],
                       rg_members = [''m@x.org'']\<rparr>),
      (''C@x.org'', \<lparr>rg_name = ''C'', rg_description = ''Group C'', rg_aliases = [],
                       rg_members = []\<rparr>)],
     [Call (GroupsList ''x.org'' None) True,
      Call (AliasesList ''B@x.org'') True,
      Call (MembersList ''B@x.org'' None) True,
      Call (GroupsInsert ''C@x.org'' ''C'' ''Group C'') True, Sleep,
      Call (MembersList ''C@x.org'' None) True])) \<and>
   sync_mailinglists 0 directory_api ''x.org'' []
     (Some [new_GroupData ''B'' ''Group B'' [] [''m@x.org''], new_GroupData ''C'' ''Group C'' [] [''n@x.org'', ''o@x.org''], new_GroupData ''D'' ''Group D'' [] []])
     ([(''B@x.org'', \<lparr>rg_name = ''B'', rg_description = ''Group B'', rg_aliases = [],
                       rg_members = [''m@x.org'']\<rparr>)], []) =
   (Some (Inr ()),
    ([(''B@x.org'', \<lparr>rg_name = ''B'', rg_description = ''Group B'', rg_aliases = [],
                       rg_members = [''m@x.org'']\<rparr>),
      (''C@x.org'', \<lparr>rg_name = ''C'', rg_description = ''Group C'', rg_aliases = [],
                       rg_members = [''n@x.org'', ''o@x.org'']\<rparr>),
      (''D@x.org'', \<lparr>rg_name = ''D'', rg_description = ''Group D'', rg_aliases = [],
                       rg_members = []\<rparr>)],
     [Call (GroupsList ''x.org'' None) True,
      Call (AliasesList ''B@x.org'') True,
      Call (MembersList ''B@x.org'' None) True,
      Call (GroupsInsert ''C@x.org'' ''C'' ''Group C'') True, Sleep,
      Call (MembersList ''C@x.org'' None) True,
      Call (MembersInsert ''C@x.org'' ''n@x.org'' ''MEMBER'') True,
      Call (MembersInsert ''C@x.org'' ''o@x.org'' ''MEMBER'') True,
      Call (GroupsInsert ''D@x.org'' ''D'' ''Group D'') True, Sleep,
      Call (MembersList ''D@x.org'' None) True])) \<and>
   (\<exists>tail.
      snd (snd (sync_mailinglists 0 directory_api ''x.org'' []
        (Some [new_GroupData ''B'' ''Group B'' [] [''m@x.org''], new_GroupData ''C'' ''Group C'' [] [''n@x.org'', ''o@x.org''], new_GroupData ''D'' ''Group D'' [] []])
        ([(''B@x.org'', \<lparr>rg_name = ''B'', rg_description = ''Group B'', rg_aliases = [],
                       rg_members = [''m@x.org'']\<rparr>)], []))) =
      [Call (GroupsList ''x.org'' None) True,
       Call (AliasesList ''B@x.org'') True,
       Call (MembersList ''B@x.org'' None) True,
       Call (GroupsInsert (at_domain ''x.org'' (name (new_GroupData ''C'' ''Group C'' [] [''n@x.org'', ''o@x.org'']))) (name (new_GroupData ''C'' ''Group C'' [] [''n@x.org'', ''o@x.org''])) (description (new_GroupData ''C'' ''Group C'' [] [''n@x.org'', ''o@x.org'']))) True,
       Sleep] @ tail)"
proof -
  define B where "B = new_GroupData ''B'' ''Group B'' [] [''m@x.org'']"
  define C where "C = new_GroupData ''C'' ''Group C'' [] [''n@x.org'', ''o@x.org'']"
  define D where "D = new_GroupData ''D'' ''Group D'' [] []"
  define d0 :: directory where "d0 = [(''B@x.org'', \<lparr>rg_name = ''B'', rg_description = ''Group B'', rg_aliases = [],
                       rg_members = [''m@x.org'']\<rparr>)]"
  define d2 :: directory where "d2 = [(''B@x.org'', \<lparr>rg_name = ''B'', rg_description = ''Group B'', rg_aliases = [],
                       rg_members = [''m@x.org'']\<rparr>),
      (''C@x.org'', \<lparr>rg_name = ''C'', rg_description = ''Group C'', rg_aliases = [],
                       rg_members = []\<rparr>)]"
  define s1 :: "directory st" where "s1 = (d0, [Call (GroupsList ''x.org'' None) True,
      Call (AliasesList ''B@x.org'') True,
      Call (MembersList ''B@x.org'' None) True])"
  define s2 :: "directory st" where "s2 = (d2, [Call (GroupsList ''x.org'' None) True,
      Call (AliasesList ''B@x.org'') True,
      Call (MembersList ''B@x.org'' None) True,
      Call (GroupsInsert ''C@x.org'' ''C'' ''Group C'') True])"
  define s3 :: "directory st" where "s3 = (d2, [Call (GroupsList ''x.org'' None) True,
      Call (AliasesList ''B@x.org'') True,
      Call (MembersList ''B@x.org'' None) True,
      Call (GroupsInsert ''C@x.org'' ''C'' ''Group C'') True, Sleep,
      Call (MembersList ''C@x.org'' None) True])"
  have listed: "list_remote 0 directory_api (GroupsList ''x.org'') (d0, []) =
                  (Some (Inr [''B'']), (d0, [Call (GroupsList ''x.org'' None) True]))"
    unfolding d0_def by code_simp
  have position: "desired_groups [] (Some [B, C, D]) = [B] @ C # [D]"
    by (simp add: desired_groups_def)
  have absent: "name C \<notin> set [''B'']"
    by (simp add: C_def new_GroupData_def)
  have reached: "sync_groups 0 directory_api ''x.org''
      (remove_list [''B''] (map name ([B] @ C # [D])))
      (insert_list [''B''] (map name ([B] @ C # [D]))) [B] (d0, [Call (GroupsList ''x.org'' None) True]) = (Some (Inr ()), s1)"
    unfolding B_def C_def D_def d0_def s1_def by code_simp
  have inserted: "execute directory_api
      (GroupsInsert (at_domain ''x.org'' (name C)) (name C) (description C)) s1 =
      (Inr \<lparr>entries = [], nextPageToken = None\<rparr>, s2)"
    unfolding C_def d0_def d2_def s1_def s2_def by code_simp
  have no_members: "list_remote 0 directory_api (MembersList (at_domain ''x.org'' (name C)))
      (sleep s2) = (Some (Inr []), s3)"
    unfolding C_def d2_def s2_def s3_def by code_simp
  have run: "sync_mailinglists 0 directory_api ''x.org'' [] (Some [B, C, D]) (d0, []) =
   (Some (Inr ()),
    ([(''B@x.org'', \<lparr>rg_name = ''B'', rg_description = ''Group B'', rg_aliases = [],
                       rg_members = [''m@x.org'']\<rparr>),
      (''C@x.org'', \<lparr>rg_name = ''C'', rg_description = ''Group C'', rg_aliases = [],
                       rg_members = [''n@x.org'', ''o@x.org'']\<rparr>),
      (''D@x.org'', \<lparr>rg_name = ''D'', rg_description = ''Group D'', rg_aliases = [],
                       rg_members = []\<rparr>)],
     [Call (GroupsList ''x.org'' None) True,
      Call (AliasesList ''B@x.org'') True,
      Call (MembersList ''B@x.org'' None) True,
      Call (GroupsInsert ''C@x.org'' ''C'' ''Group C'') True, Sleep,
      Call (MembersList ''C@x.org'' None) True,
      Call (MembersInsert ''C@x.org'' ''n@x.org'' ''MEMBER'') True,
      Call (MembersInsert ''C@x.org'' ''o@x.org'' ''MEMBER'') True,
      Call (GroupsInsert ''D@x.org'' ''D'' ''Group D'') True, Sleep,
      Call (MembersList ''D@x.org'' None) True]))"
    unfolding B_def C_def D_def d0_def by code_simp
  let ?F = "\<lambda>s4 listing inserting rest.
      snd s4 = snd s1 @ [Call (GroupsInsert (at_domain ''x.org'' (name C)) (name C) (description C)) True,
                         Sleep] @ listing @ inserting \<and>
      (\<forall>ev \<in> set listing. \<exists>token ok. ev = Call (MembersList (at_domain ''x.org'' (name C)) token) ok) \<and>
      list_all2 (\<lambda>ev a. \<exists>ok. ev = Call (MembersInsert (at_domain ''x.org'' (name C)) a ''MEMBER'') ok)
        inserting (addresses C) \<and>
      sync_mailinglists 0 directory_api ''x.org'' [] (Some [B, C, D]) (d0, []) =
        sync_groups 0 directory_api ''x.org''
          (remove_list [''B''] (map name ([B] @ C # [D])))
          (insert_list [''B''] (map name ([B] @ C # [D]))) [D] s4 \<and>
      snd (snd (sync_mailinglists 0 directory_api ''x.org'' [] (Some [B, C, D]) (d0, []))) =
        snd s4 @ rest"
  have "\<exists>s4 listing inserting rest. ?F s4 listing inserting rest"
    by (rule missing_group_is_created_with_its_members
               [OF listed position absent reached inserted no_members])
  then obtain s4 where "\<exists>listing inserting rest. ?F s4 listing inserting rest" by (rule exE)
  then obtain listing where "\<exists>inserting rest. ?F s4 listing inserting rest" by (rule exE)
  then obtain inserting where "\<exists>rest. ?F s4 listing inserting rest" by (rule exE)
  then obtain rest where all: "?F s4 listing inserting rest" by (rule exE)
  have "snd s4 = snd s1 @ [Call (GroupsInsert (at_domain ''x.org'' (name C)) (name C) (description C)) True,
                         Sleep] @ listing @ inserting"
    using all by (rule conjunct1)
  moreover
  have "snd (snd (sync_mailinglists 0 directory_api ''x.org'' [] (Some [B, C, D]) (d0, []))) =
        snd s4 @ rest"
    using all [THEN conjunct2, THEN conjunct2, THEN conjunct2] by (rule conjunct2)
  ultimately
  have "snd (snd (sync_mailinglists 0 directory_api ''x.org'' [] (Some [B, C, D]) (d0, []))) =
      (snd s1 @ [Call (GroupsInsert (at_domain ''x.org'' (name C)) (name C) (description C)) True,
                 Sleep]) @ (listing @ inserting @ rest)"
    by simp
  then have prefix: "\<exists>tail.
      snd (snd (sync_mailinglists 0 directory_api ''x.org'' [] (Some [B, C, D]) (d0, []))) =
      (snd s1 @ [Call (GroupsInsert (at_domain ''x.org'' (name C)) (name C) (description C)) True,
                 Sleep]) @ tail"
    by (rule exI)
  have "snd s1 @ [Call (GroupsInsert (at_domain ''x.org'' (name C)) (name C) (description C)) True,
                 Sleep] =
      [Call (GroupsList ''x.org'' None) True,
       Call (AliasesList ''B@x.org'') True,
       Call (MembersList ''B@x.org'' None) True,
       Call (GroupsInsert (at_domain ''x.org'' (name C)) (name C) (description C)) True,
       Sleep]"
    by (simp add: s1_def)
  with prefix have prefix': "\<exists>tail.
      snd (snd (sync_mailinglists 0 directory_api ''x.org'' [] (Some [B, C, D]) (d0, []))) =
      [Call (GroupsList ''x.org'' None) True,
       Call (AliasesList ''B@x.org'') True,
       Call (MembersList ''B@x.org'' None) True,
       Call (GroupsInsert (at_domain ''x.org'' (name C)) (name C) (description C)) True,
       Sleep] @ tail"
    by simp
  from listed reached inserted no_members run prefix' show ?thesis
    unfolding B_def C_def D_def d0_def d2_def s1_def s2_def s3_def by (intro conjI)
qed

section \<open>Pagination\<close>

lemma list_pages_paged:
  assumes "paged api list_request token s rs s'"
    and "token = Some t" and "nextPageToken resp = Some t" and "length rs \<le> n"
  shows "list_pages n api (\<lambda>token. list_request (Some token)) resp collected s =
           (Some (Inr (collected @ concat (map entries rs))), s')"
  using assms
proof (induction arbitrary: t resp collected n rule: paged.induct)
  case (last_page token s r s')
  then obtain m where "n = Suc m" by (cases n) auto
  with last_page show ?case by simp
next
  case (more_pages token s r s1 t' rs s')
  from more_pages.prems obtain m where n: "n = Suc m" and m: "length rs \<le> m" by (cases n) auto
  have "list_pages m api (\<lambda>token. list_request (Some token)) r (collected @ entries r) s1 =
          (Some (Inr ((collected @ entries r) @ concat (map entries rs))), s')"
    using refl more_pages.hyps(2) m by (rule more_pages.IH)
  with more_pages.hyps(1) more_pages.prems(1,2) n show ?case by simp
qed

lemma list_remote_paged:
  assumes "paged api list_request None s rs s'" and "length rs \<le> Suc n"
  shows "list_remote n api list_request s = (Some (Inr (concat (map entries rs))), s')"
  using assms
proof (cases rule: paged.cases)
  case (last_page r)
  then show ?thesis by (simp add: list_remote_def)
next
  case (more_pages r s1 t rs')
  with assms(2) have "length rs' \<le> n" by simp
  with more_pages(4) refl more_pages(3)
  have "list_pages n api (\<lambda>token. list_request (Some token)) r (entries r) s1 =
          (Some (Inr (entries r @ concat (map entries rs'))), s')"
    by (rule list_pages_paged)
  with more_pages show ?thesis by (simp add: list_remote_def)
qed


lemma update_group_aliases_trace:
  assumes "execute api (AliasesList (at_domain domain (name g))) s = (Inr r, s1)"
  shows "\<exists>tr. snd (snd (update_group_aliases api domain g s)) =
            snd s @ Call (AliasesList (at_domain domain (name g))) True # tr \<and>
          list_all2 (\<lambda>ev rq. \<exists>ok. ev = Call rq ok) tr
            (map (AliasesDelete (at_domain domain (name g)))
               (remove_list (entries r) (map (at_domain domain) (aliases g))) @
             map (AliasesInsert (at_domain domain (name g)))
               (insert_list (entries r) (map (at_domain domain) (aliases g))))"
proof -
  let ?key = "at_domain domain (name g)"
  let ?removals = "remove_list (entries r) (map (at_domain domain) (aliases g))"
  let ?inserts = "insert_list (entries r) (map (at_domain domain) (aliases g))"
  let ?s2 = "fold (\<lambda>a. try_execute api (AliasesDelete ?key a)) ?removals s1"
  let ?s3 = "fold (\<lambda>a. try_execute api (AliasesInsert ?key a)) ?inserts ?s2"
  have result: "update_group_aliases api domain g s = (Some (Inr ()), ?s3)"
    using assms by (simp add: update_group_aliases_def Let_def)
  have t1: "snd s1 = snd s @ [Call (AliasesList ?key) True]"
    using assms by (rule execute_returned_trace)
  obtain tr2 where t2: "snd ?s2 = snd s1 @ tr2"
    and a2: "list_all2 (\<lambda>ev a. \<exists>ok. ev = Call (AliasesDelete ?key a) ok) tr2 ?removals"
    using fold_try_execute_trace [of api "AliasesDelete ?key" ?removals s1] by blast
  obtain tr3 where t3: "snd ?s3 = snd ?s2 @ tr3"
    and a3: "list_all2 (\<lambda>ev a. \<exists>ok. ev = Call (AliasesInsert ?key a) ok) tr3 ?inserts"
    using fold_try_execute_trace [of api "AliasesInsert ?key" ?inserts ?s2] by blast
  have "list_all2 (\<lambda>ev rq. \<exists>ok. ev = Call rq ok) tr2 (map (AliasesDelete ?key) ?removals)"
    using a2 by (simp add: list_all2_map2)
  moreover
  have "list_all2 (\<lambda>ev rq. \<exists>ok. ev = Call rq ok) tr3 (map (AliasesInsert ?key) ?inserts)"
    using a3 by (simp add: list_all2_map2)
  ultimately
  have "list_all2 (\<lambda>ev rq. \<exists>ok. ev = Call rq ok) (tr2 @ tr3)
          (map (AliasesDelete ?key) ?removals @ map (AliasesInsert ?key) ?inserts)"
    by (rule list_all2_appendI)
  moreover have "snd (snd (update_group_aliases api domain g s)) =
      snd s @ Call (AliasesList ?key) True # (tr2 @ tr3)"
    using result t1 t2 t3 by simp
  ultimately show ?thesis by blast
qed

text \<open>
  C6. The claim: the listing of the remote groups, of the members of a group and of the
  aliases of a group each follow the page-token cursor until it is exhausted. It fails
  for the aliases. Below, the response to the listing of the aliases of B carries the
  alias \<open>a@x.org\<close> and a page token; the next page would hold \<open>b@x.org\<close>. The function
  executes one \<open>list\<close> and then inserts \<open>b@x.org\<close>: the token is not followed.
\<close>

theorem alias_listing_does_not_follow_the_cursor:
  "update_group_aliases script_api ''x.org'' (new_GroupData ''B'' ''Group B'' [''a'', ''b''] [])
     ([page [''a@x.org''] (Some ''t''), page [''b@x.org''] None], []) =
   (Some (Inr ()),
    ([], [Call (AliasesList ''B@x.org'') True,
          Call (AliasesInsert ''B@x.org'' ''b@x.org'') True]))"
  by code_simp

text \<open>
  C6, as amended. The listing of the remote groups and the listing of the members of a
  group follow the cursor: whenever the directory serves a finite sequence of pages
  \<open>rs\<close>, the listing returns the entries of all of them, in order, provided the bound on
  the iterations is at least the number of pages after the first. The listing of the
  aliases of a group is one request: whatever token its response carries, the requests
  that follow are the deletes and inserts computed from the entries of that one
  response.
\<close>

theorem groups_and_members_listings_follow_the_cursor:
  "(paged api (GroupsList domain) None s rs s' \<and> length rs \<le> Suc n \<longrightarrow>
      list_remote n api (GroupsList domain) s = (Some (Inr (concat (map entries rs))), s')) \<and>
   (paged api (MembersList key) None s rs s' \<and> length rs \<le> Suc n \<longrightarrow>
      list_remote n api (MembersList key) s = (Some (Inr (concat (map entries rs))), s')) \<and>
   (execute api (AliasesList (at_domain domain (name g))) s = (Inr r, s1) \<longrightarrow>
      (\<exists>tr. snd (snd (update_group_aliases api domain g s)) =
              snd s @ Call (AliasesList (at_domain domain (name g))) True # tr \<and>
            list_all2 (\<lambda>ev rq. \<exists>ok. ev = Call rq ok) tr
              (map (AliasesDelete (at_domain domain (name g)))
                 (remove_list (entries r) (map (at_domain domain) (aliases g))) @
               map (AliasesInsert (at_domain domain (name g)))
                 (insert_list (entries r) (map (at_domain domain) (aliases g))))))"
  using list_remote_paged [of api "GroupsList domain" s rs s' n]
    list_remote_paged [of api "MembersList key" s rs s' n]
    update_group_aliases_trace [of api domain g s r s1]
  by blast

theorem groups_and_members_listings_follow_the_cursor_witness:
  "paged script_api (GroupsList ''x.org'') None
     ([page [''A'', ''B''] (Some ''t1''), page [''C''] (Some ''t2''), page [''D''] None], [])
     [\<lparr>entries = [''A'', ''B''], nextPageToken = Some ''t1''\<rparr>,
      \<lparr>entries = [''C''], nextPageToken = Some ''t2''\<rparr>,
      \<lparr>entries = [''D''], nextPageToken = None\<rparr>]
     ([], [Call (GroupsList ''x.org'' None) True,
           Call (GroupsList ''x.org'' (Some ''t1'')) True,
           Call (GroupsList ''x.org'' (Some ''t2'')) True]) \<and>
   list_remote 2 script_api (GroupsList ''x.org'')
     ([page [''A'', ''B''] (Some ''t1''), page [''C''] (Some ''t2''), page [''D''] None], []) =
   (Some (Inr [''A'', ''B'', ''C'', ''D'']),
    ([], [Call (GroupsList ''x.org'' None) True,
          Call (GroupsList ''x.org'' (Some ''t1'')) True,
          Call (GroupsList ''x.org'' (Some ''t2'')) True])) \<and>
   list_remote 1 script_api (MembersList ''B@x.org'')
     ([page [''m@x.org''] (Some ''u''), page [''n@x.org''] None], []) =
   (Some (Inr [''m@x.org'', ''n@x.org'']),
    ([], [Call (MembersList ''B@x.org'' None) True,
          Call (MembersList ''B@x.org'' (Some ''u'')) True])) \<and>
   (\<exists>tr. snd (snd (update_group_aliases script_api ''x.org''
                     (new_GroupData ''B'' ''Group B'' [''a''] [])
                     ([page [''z@x.org''] (Some ''t''), page [] None, page [] None], []))) =
           Call (AliasesList ''B@x.org'') True # tr \<and>
         list_all2 (\<lambda>ev rq. \<exists>ok. ev = Call rq ok) tr
           [AliasesDelete ''B@x.org'' ''z@x.org'', AliasesInsert ''B@x.org'' ''a@x.org''])"
proof -
  note main = groups_and_members_listings_follow_the_cursor
  define r1 where "r1 = \<lparr>entries = [''A'', ''B''], nextPageToken = Some ''t1''\<rparr>"
  define r2 where "r2 = \<lparr>entries = [''C''], nextPageToken = Some ''t2''\<rparr>"
  define r3 where "r3 = \<lparr>entries = [''D''], nextPageToken = None\<rparr>"
  define s0 :: "(error + response) list st" where
    "s0 = ([page [''A'', ''B''] (Some ''t1''), page [''C''] (Some ''t2''), page [''D''] None], [])"
  define s1 :: "(error + response) list st" where
    "s1 = ([page [''C''] (Some ''t2''), page [''D''] None], [Call (GroupsList ''x.org'' None) True])"
  define s2 :: "(error + response) list st" where
    "s2 = ([page [''D''] None], [Call (GroupsList ''x.org'' None) True,
           Call (GroupsList ''x.org'' (Some ''t1'')) True])"
  define s3 :: "(error + response) list st" where
    "s3 = ([], [Call (GroupsList ''x.org'' None) True,
           Call (GroupsList ''x.org'' (Some ''t1'')) True,
           Call (GroupsList ''x.org'' (Some ''t2'')) True])"
  have e1: "execute script_api (GroupsList ''x.org'' None) s0 = (Inr r1, s1)"
    unfolding r1_def s0_def s1_def by code_simp
  have e2: "execute script_api (GroupsList ''x.org'' (Some ''t1'')) s1 = (Inr r2, s2)"
    unfolding r2_def s1_def s2_def by code_simp
  have e3: "execute script_api (GroupsList ''x.org'' (Some ''t2'')) s2 = (Inr r3, s3)"
    unfolding r3_def s2_def s3_def by code_simp
  have n1: "nextPageToken r1 = Some ''t1''" and n2: "nextPageToken r2 = Some ''t2''"
    and n3: "nextPageToken r3 = None"
    by (simp_all add: r1_def r2_def r3_def)
  have p3: "paged script_api (GroupsList ''x.org'') (Some ''t2'') s2 [r3] s3"
    using e3 n3 by (rule last_page)
  have p2: "paged script_api (GroupsList ''x.org'') (Some ''t1'') s1 [r2, r3] s3"
    using e2 n2 p3 by (rule more_pages)
  have groups_paged: "paged script_api (GroupsList ''x.org'') None s0 [r1, r2, r3] s3"
    using e1 n1 p2 by (rule more_pages)
  have "paged script_api (GroupsList ''x.org'') None s0 [r1, r2, r3] s3 \<and>
          length [r1, r2, r3] \<le> Suc 2"
    using groups_paged by simp
  with main [THEN conjunct1]
  have "list_remote 2 script_api (GroupsList ''x.org'') s0 =
          (Some (Inr (concat (map entries [r1, r2, r3]))), s3)"
    by (rule mp)
  then have groups_listed:
    "list_remote 2 script_api (GroupsList ''x.org'') s0 = (Some (Inr [''A'', ''B'', ''C'', ''D'']), s3)"
    by (simp add: r1_def r2_def r3_def)

  define q1 where "q1 = \<lparr>entries = [''m@x.org''], nextPageToken = Some ''u''\<rparr>"
  define q2 where "q2 = \<lparr>entries = [''n@x.org''], nextPageToken = None\<rparr>"
  define m0 :: "(error + response) list st" where
    "m0 = ([page [''m@x.org''] (Some ''u''), page [''n@x.org''] None], [])"
  define m1 :: "(error + response) list st" where
    "m1 = ([page [''n@x.org''] None], [Call (MembersList ''B@x.org'' None) True])"
  define m2 :: "(error + response) list st" where
    "m2 = ([], [Call (MembersList ''B@x.org'' None) True,
                Call (MembersList ''B@x.org'' (Some ''u'')) True])"
  have f1: "execute script_api (MembersList ''B@x.org'' None) m0 = (Inr q1, m1)"
    unfolding q1_def m0_def m1_def by code_simp
  have f2: "execute script_api (MembersList ''B@x.org'' (Some ''u'')) m1 = (Inr q2, m2)"
    unfolding q2_def m1_def m2_def by code_simp
  have k1: "nextPageToken q1 = Some ''u''" and k2: "nextPageToken q2 = None"
    by (simp_all add: q1_def q2_def)
  have "paged script_api (MembersList ''B@x.org'') (Some ''u'') m1 [q2] m2"
    using f2 k2 by (rule last_page)
  with f1 k1 have "paged script_api (MembersList ''B@x.org'') None m0 [q1, q2] m2"
    by (rule more_pages)
  then have "paged script_api (MembersList ''B@x.org'') None m0 [q1, q2] m2 \<and>
          length [q1, q2] \<le> Suc 1"
    by simp
  with main [THEN conjunct2, THEN conjunct1]
  have "list_remote 1 script_api (MembersList ''B@x.org'') m0 =
          (Some (Inr (concat (map entries [q1, q2]))), m2)"
    by (rule mp)
  then have members_listed:
    "list_remote 1 script_api (MembersList ''B@x.org'') m0 =
       (Some (Inr [''m@x.org'', ''n@x.org'']), m2)"
    by (simp add: q1_def q2_def)

  define B where "B = new_GroupData ''B'' ''Group B'' [''a''] []"
  define a0 :: "(error + response) list st" where
    "a0 = ([page [''z@x.org''] (Some ''t''), page [] None, page [] None], [])"
  have g1: "execute script_api (AliasesList (at_domain ''x.org'' (name B))) a0 =
       (Inr \<lparr>entries = [''z@x.org''], nextPageToken = Some ''t''\<rparr>,
        ([page [] None, page [] None], [Call (AliasesList ''B@x.org'') True]))"
    unfolding B_def a0_def by code_simp
  have key: "at_domain ''x.org'' (name B) = ''B@x.org''"
    by (simp add: B_def new_GroupData_def at_domain_def)
  have diff: "remove_list [''z@x.org''] (map (at_domain ''x.org'') (aliases B)) = [''z@x.org'']"
    "insert_list [''z@x.org''] (map (at_domain ''x.org'') (aliases B)) = [''a@x.org'']"
    by (simp_all add: B_def new_GroupData_def at_domain_def remove_list_def insert_list_def)
  from main [THEN conjunct2, THEN conjunct2] g1
  have "\<exists>tr. snd (snd (update_group_aliases script_api ''x.org'' B a0)) =
              snd a0 @ Call (AliasesList (at_domain ''x.org'' (name B))) True # tr \<and>
            list_all2 (\<lambda>ev rq. \<exists>ok. ev = Call rq ok) tr
              (map (AliasesDelete (at_domain ''x.org'' (name B)))
                 (remove_list (entries \<lparr>entries = [''z@x.org''], nextPageToken = Some ''t''\<rparr>)
                    (map (at_domain ''x.org'') (aliases B))) @
               map (AliasesInsert (at_domain ''x.org'' (name B)))
                 (insert_list (entries \<lparr>entries = [''z@x.org''], nextPageToken = Some ''t''\<rparr>)
                    (map (at_domain ''x.org'') (aliases B))))"
    by (rule mp)
  then have aliases_once:
    "\<exists>tr. snd (snd (update_group_aliases script_api ''x.org'' B a0)) =
              Call (AliasesList ''B@x.org'') True # tr \<and>
            list_all2 (\<lambda>ev rq. \<exists>ok. ev = Call rq ok) tr
              [AliasesDelete ''B@x.org'' ''z@x.org'', AliasesInsert ''B@x.org'' ''a@x.org'']"
    by (simp add: key diff a0_def)
  from groups_paged groups_listed members_listed aliases_once show ?thesis
    unfolding r1_def r2_def r3_def s0_def s3_def m0_def m2_def B_def a0_def
    by (intro conjI)
qed

section \<open>Two passes in succession\<close>

text \<open>
  What a second pass finds after a first one depends on the directory service. It is
  stated for the services that are faithful to the reference directory \<open>directory_api\<close>:
  a group that was inserted is listed, and a member or alias that was inserted or deleted
  is or is not listed afterwards. First the reference directory itself, then the
  transfer of a run on a faithful service to a run on the reference directory.
\<close>

subsection \<open>What the requests do to the reference directory\<close>

lemma world_after_execute: "fst (snd (execute api rq s)) = snd (api rq (fst s))"
  by (simp add: execute_def split: prod.splits sum.splits)

































subsection \<open>Runs on a faithful service\<close>










































subsection \<open>The second pass\<close>




end
